theory Spec2Isabelle
  imports Complex_Main "HOL-Library.AList"
begin

section \<open>JavaScript values used by the program\<close>

text \<open>
  A JavaScript \<^verbatim>\<open>Date\<close> object holds a time value: a whole number of milliseconds since
  1970-01-01T00:00:00Z, or NaN (an "Invalid Date"). A field of type \<^verbatim>\<open>Date | null\<close> is a
  \<open>jsdate option\<close>, \<open>None\<close> standing for \<^verbatim>\<open>null\<close>/\<^verbatim>\<open>undefined\<close>. Every \<^verbatim>\<open>Date\<close>
  object is truthy, the invalid one too; \<^verbatim>\<open>null\<close> and the empty string are falsy.
  The time value of a valid date is an integer of magnitude at most 8640000000000000,
  which a double holds exactly. A string field that may be \<^verbatim>\<open>undefined\<close> (a column
  missing from a parsed row) is a \<open>string option\<close> too.
\<close>

datatype jsdate = Date int | InvalidDate

datatype error = RangeError | TypeError

definition truthy :: "string \<Rightarrow> bool" where
  "truthy s \<longleftrightarrow> s \<noteq> []"

definition bindE :: "error + 'a \<Rightarrow> ('a \<Rightarrow> error + 'b) \<Rightarrow> error + 'b" where
  "bindE r f = (case r of Inl e \<Rightarrow> Inl e | Inr x \<Rightarrow> f x)"

text \<open>
  Relational comparison \<^verbatim>\<open>a < b\<close> of two \<^verbatim>\<open>Date | null\<close> operands: each is converted to a
  number (\<^verbatim>\<open>null\<close> to 0, a date to its time value, an invalid date to NaN), and a
  comparison with NaN is false.
\<close>

definition toNumber :: "jsdate option \<Rightarrow> int option" where
  "toNumber v = (case v of None \<Rightarrow> Some 0 | Some (Date t) \<Rightarrow> Some t | Some InvalidDate \<Rightarrow> None)"

definition js_lt :: "jsdate option \<Rightarrow> jsdate option \<Rightarrow> bool" where
  "js_lt a b = (case (toNumber a, toNumber b) of (Some x, Some y) \<Rightarrow> x < y | _ \<Rightarrow> False)"

subsection \<open>Map and Set\<close>

text \<open>
  A JavaScript \<^verbatim>\<open>Map\<close> iterates in insertion order of its keys, and \<^verbatim>\<open>set\<close> on an
  existing key replaces the value where the key already stands: an association list with
  \<open>AList.update\<close>. A \<^verbatim>\<open>Set\<close> is a list without repetitions, \<^verbatim>\<open>add\<close> appending a new
  element only.
\<close>

type_synonym ('k, 'v) jsmap = "('k \<times> 'v) list"

definition Map_get :: "('k, 'v) jsmap \<Rightarrow> 'k \<Rightarrow> 'v option" where
  "Map_get m k = map_of m k"

definition Map_has :: "('k, 'v) jsmap \<Rightarrow> 'k \<Rightarrow> bool" where
  "Map_has m k \<longleftrightarrow> map_of m k \<noteq> None"

definition Map_set :: "('k, 'v) jsmap \<Rightarrow> 'k \<Rightarrow> 'v \<Rightarrow> ('k, 'v) jsmap" where
  "Map_set m k v = AList.update k v m"

definition Map_keys :: "('k, 'v) jsmap \<Rightarrow> 'k list" where
  "Map_keys m = map fst m"

text \<open>
  The idiom of the three list-valued indexes:
  \<^verbatim>\<open>if (!m.has(k)) m.set(k, []); m.get(k).push(v);\<close>
\<close>

definition Map_push :: "('k, 'v list) jsmap \<Rightarrow> 'k \<Rightarrow> 'v \<Rightarrow> ('k, 'v list) jsmap" where
  "Map_push m k v =
     (let m' = (if \<not> Map_has m k then Map_set m k [] else m)
      in case Map_get m' k of Some xs \<Rightarrow> Map_set m' k (xs @ [v]) | None \<Rightarrow> m')"

definition Set_add :: "'a list \<Rightarrow> 'a \<Rightarrow> 'a list" where
  "Set_add s x = (if x \<in> set s then s else s @ [x])"

subsection \<open>Date.prototype.toISOString\<close>

text \<open>
  The proleptic Gregorian date of a day number (days since 1970-01-01), by the usual
  400-year-era computation; months are 1..12.
\<close>

definition civil_from_days :: "int \<Rightarrow> int \<times> int \<times> int" where
  "civil_from_days z =
     (let z' = z + 719468;
          era = z' div 146097;
          doe = z' mod 146097;
          yoe = (doe - doe div 1460 + doe div 36524 - doe div 146096) div 365;
          doy = doe - (365 * yoe + yoe div 4 - yoe div 100);
          mp = (5 * doy + 2) div 153;
          d = doy - (153 * mp + 2) div 5 + 1;
          m = (if mp < 10 then mp + 3 else mp - 9)
      in (yoe + era * 400 + (if m \<le> 2 then 1 else 0), m, d))"

definition digit :: "int \<Rightarrow> char" where
  "digit n = ''0123456789'' ! nat (n mod 10)"

definition pad2 :: "int \<Rightarrow> string" where
  "pad2 n = [digit (n div 10), digit n]"

definition pad3 :: "int \<Rightarrow> string" where
  "pad3 n = [digit (n div 100), digit (n div 10), digit n]"

definition pad4 :: "int \<Rightarrow> string" where
  "pad4 n = digit (n div 1000) # pad3 n"

definition pad6 :: "int \<Rightarrow> string" where
  "pad6 n = [digit (n div 100000), digit (n div 10000)] @ pad4 n"

definition isoYear :: "int \<Rightarrow> string" where
  "isoYear y =
     (if 0 \<le> y \<and> y \<le> 9999 then pad4 y
      else (if y < 0 then CHR ''-'' else CHR ''+'') # pad6 \<bar>y\<bar>)"

text \<open>
  \<^verbatim>\<open>toISOString\<close> gives \<^verbatim>\<open>YYYY-MM-DDTHH:mm:ss.sssZ\<close> in UTC (a signed six-digit year
  outside 0..9999) and throws a RangeError on an invalid date.
\<close>

definition toISOString :: "jsdate \<Rightarrow> error + string" where
  "toISOString d =
     (case d of
        InvalidDate \<Rightarrow> Inl RangeError
      | Date t \<Rightarrow>
          (case civil_from_days (t div 86400000) of
             (y, m, dd) \<Rightarrow>
               (let ms = t mod 86400000
                in Inr (isoYear y @ ''-'' @ pad2 m @ ''-'' @ pad2 dd @ ''T''
                        @ pad2 (ms div 3600000) @ '':'' @ pad2 (ms div 60000 mod 60) @ '':''
                        @ pad2 (ms div 1000 mod 60) @ ''.'' @ pad3 (ms mod 1000) @ ''Z''))))"

section \<open>dateUtils: elapsed minutes\<close>

text \<open>
  JavaScript numbers are IEEE 754 doubles. \<open>toDouble\<close> rounds a rational number to the
  nearest double, a tie going to the even significand: with \<open>exponent\<close> the binary
  exponent of the number, the doubles around it are the multiples of 2 to the power
  \<open>exponent - 52\<close>. (Overflow and subnormal numbers are left out: the numbers rounded
  below, a difference of two time values and its quotient by 60000, are zero or of
  magnitude between 1/60000 and 2 to the power 54.)
\<close>

definition pow2 :: "int \<Rightarrow> rat" where
  "pow2 e = (if 0 \<le> e then 2 ^ nat e else 1 / 2 ^ nat (- e))"

function ilog2 :: "int \<Rightarrow> int" where
  "ilog2 n = (if n < 2 then 0 else 1 + ilog2 (n div 2))"
  by pat_completeness auto
termination
  by (relation "measure nat") auto

declare ilog2.simps [simp del]

definition exponent :: "rat \<Rightarrow> int" where
  "exponent y =
     (if 1 \<le> y then ilog2 \<lfloor>y\<rfloor>
      else (let k = ilog2 \<lfloor>1 / y\<rfloor>
            in if y = pow2 (- k) then - k else - k - 1))"

definition roundHalfEven :: "rat \<Rightarrow> int" where
  "roundHalfEven m =
     (let f = \<lfloor>m\<rfloor>; d = m - of_int f
      in if d < 1 / 2 then f else if 1 / 2 < d then f + 1 else if even f then f else f + 1)"

definition toDouble :: "rat \<Rightarrow> rat" where
  "toDouble x =
     (if x = 0 then 0
      else (let u = pow2 (exponent \<bar>x\<bar> - 52)
            in sgn x * of_int (roundHalfEven (\<bar>x\<bar> / u)) * u))"

text \<open>
  \<^verbatim>\<open>end.diff(start, 'minutes')\<close> of moment is \<^verbatim>\<open>absFloor((this - that) / 6e4)\<close> on the two
  time values: a subtraction and a division of doubles, then a truncation toward zero.
\<close>

definition absFloor :: "rat \<Rightarrow> int" where
  "absFloor x = (if x < 0 then \<lceil>x\<rceil> else \<lfloor>x\<rfloor>)"

definition moment_diff_minutes :: "int \<Rightarrow> int \<Rightarrow> int" where
  "moment_diff_minutes e s = absFloor (toDouble (toDouble (of_int e - of_int s) / 60000))"

definition calculateTimeDifferenceMinutes :: "jsdate option \<Rightarrow> jsdate option \<Rightarrow> int option" where
  "calculateTimeDifferenceMinutes startDate endDate =
     (case (startDate, endDate) of
        (Some start, Some end') \<Rightarrow>
          (case (start, end') of
             (Date s, Date e) \<Rightarrow> Some \<bar>moment_diff_minutes e s\<bar>
           | _ \<Rightarrow> None)
      | _ \<Rightarrow> None)"

subsection \<open>The host\<close>

text \<open>
  What the program takes from the machine it runs on: the offset of local time from UTC
  in minutes (east positive, taken as constant), the engine's \<^verbatim>\<open>new Date(string)\<close>, and
  moment's lenient \<^verbatim>\<open>moment(string)\<close>; the last two give the invalid date on a text they
  cannot read.
\<close>

record host =
  localOffset :: int
  newDate :: "string \<Rightarrow> jsdate"
  momentLenient :: "string \<Rightarrow> jsdate"

section \<open>dateUtils: parseDate\<close>

text \<open>
  \<^verbatim>\<open>moment(dateString, format, true)\<close>, for the tokens of the four formats of
  \<^verbatim>\<open>parseDate\<close> (strict regular expressions of moment 2.30). In strict mode the result
  is valid only if every token matches where the previous one ended and the whole input
  is used. A format without an offset token is read as local time.
\<close>

datatype token =
  TokM | TokD | TokYYYY | TokH | TokMM | TokDD | TokHH | Tokmm | Tokss | TokSSS | TokA | TokZ
  | Lit string

record parts =
  p_year :: int
  p_month :: int
  p_day :: int
  p_hour :: int
  p_minute :: int
  p_second :: int
  p_ms :: int
  p_pm :: "bool option"
  p_offset :: "int option"

definition noParts :: parts where
  "noParts = \<lparr>p_year = 1970, p_month = 1, p_day = 1, p_hour = 0, p_minute = 0, p_second = 0,
              p_ms = 0, p_pm = None, p_offset = None\<rparr>"

definition digitVal :: "char \<Rightarrow> int option" where
  "digitVal c =
     map_of [(CHR ''0'', 0), (CHR ''1'', 1), (CHR ''2'', 2), (CHR ''3'', 3), (CHR ''4'', 4),
             (CHR ''5'', 5), (CHR ''6'', 6), (CHR ''7'', 7), (CHR ''8'', 8), (CHR ''9'', 9)] c"

definition isDigit :: "char \<Rightarrow> bool" where
  "isDigit c \<longleftrightarrow> digitVal c \<noteq> None"

fun readDigits :: "nat \<Rightarrow> int \<Rightarrow> string \<Rightarrow> (int \<times> string) option" where
  "readDigits 0 acc s = Some (acc, s)"
| "readDigits (Suc n) acc [] = None"
| "readDigits (Suc n) acc (c # cs) =
     (case digitVal c of None \<Rightarrow> None | Some d \<Rightarrow> readDigits n (10 * acc + d) cs)"

text \<open>\<^verbatim>\<open>/^[1-9]\d?/\<close> (tokens M and D) and \<^verbatim>\<open>/^([1-9]\d|\d)/\<close> (token H).\<close>

definition read1to2 :: "bool \<Rightarrow> string \<Rightarrow> (int \<times> string) option" where
  "read1to2 zeroAllowed s =
     (case s of
        [] \<Rightarrow> None
      | c # cs \<Rightarrow>
          (case digitVal c of
             None \<Rightarrow> None
           | Some d \<Rightarrow>
               if d = 0 then (if zeroAllowed then Some (0, cs) else None)
               else (case cs of
                       [] \<Rightarrow> Some (d, cs)
                     | c' # cs' \<Rightarrow>
                         (case digitVal c' of
                            None \<Rightarrow> Some (d, cs)
                          | Some d' \<Rightarrow> Some (10 * d + d', cs')))))"

text \<open>\<^verbatim>\<open>/[ap]\.?m?\.?/i\<close>; the meridiem is PM when its first letter is p or P.\<close>

definition optChar :: "char list \<Rightarrow> string \<Rightarrow> string" where
  "optChar cs s = (case s of [] \<Rightarrow> [] | c # r \<Rightarrow> if c \<in> set cs then r else s)"

definition readMeridiem :: "string \<Rightarrow> (bool \<times> string) option" where
  "readMeridiem s =
     (case s of
        [] \<Rightarrow> None
      | c # r \<Rightarrow>
          if c \<in> set ''apAP''
          then Some (c \<in> set ''pP'', optChar ''.'' (optChar ''mM'' (optChar ''.'' r)))
          else None)"

text \<open>\<^verbatim>\<open>/Z|[+-]\d\d(?::?\d\d)?/i\<close>, as minutes east of UTC.\<close>

definition readOffset :: "string \<Rightarrow> (int \<times> string) option" where
  "readOffset s =
     (case s of
        [] \<Rightarrow> None
      | c # r \<Rightarrow>
          if c \<in> set ''Zz'' then Some (0, r)
          else if c \<in> set ''+-'' then
            (case readDigits 2 0 r of
               None \<Rightarrow> None
             | Some (hh, r') \<Rightarrow>
                 (let sgn = (if c = CHR ''+'' then 1 else - 1)
                  in case readDigits 2 0 (optChar '':'' r') of
                       Some (mm, r'') \<Rightarrow> Some (sgn * (hh * 60 + mm), r'')
                     | None \<Rightarrow> Some (sgn * (hh * 60), r')))
          else None)"

fun matchToken :: "token \<Rightarrow> parts \<Rightarrow> string \<Rightarrow> (parts \<times> string) option" where
  "matchToken TokM p s = map_option (\<lambda>(n, r). (p\<lparr>p_month := n\<rparr>, r)) (read1to2 False s)"
| "matchToken TokD p s = map_option (\<lambda>(n, r). (p\<lparr>p_day := n\<rparr>, r)) (read1to2 False s)"
| "matchToken TokH p s = map_option (\<lambda>(n, r). (p\<lparr>p_hour := n\<rparr>, r)) (read1to2 True s)"
| "matchToken TokYYYY p s = map_option (\<lambda>(n, r). (p\<lparr>p_year := n\<rparr>, r)) (readDigits 4 0 s)"
| "matchToken TokMM p s = map_option (\<lambda>(n, r). (p\<lparr>p_month := n\<rparr>, r)) (readDigits 2 0 s)"
| "matchToken TokDD p s = map_option (\<lambda>(n, r). (p\<lparr>p_day := n\<rparr>, r)) (readDigits 2 0 s)"
| "matchToken TokHH p s = map_option (\<lambda>(n, r). (p\<lparr>p_hour := n\<rparr>, r)) (readDigits 2 0 s)"
| "matchToken Tokmm p s = map_option (\<lambda>(n, r). (p\<lparr>p_minute := n\<rparr>, r)) (readDigits 2 0 s)"
| "matchToken Tokss p s = map_option (\<lambda>(n, r). (p\<lparr>p_second := n\<rparr>, r)) (readDigits 2 0 s)"
| "matchToken TokSSS p s = map_option (\<lambda>(n, r). (p\<lparr>p_ms := n\<rparr>, r)) (readDigits 3 0 s)"
| "matchToken TokA p s = map_option (\<lambda>(b, r). (p\<lparr>p_pm := Some b\<rparr>, r)) (readMeridiem s)"
| "matchToken TokZ p s = map_option (\<lambda>(n, r). (p\<lparr>p_offset := Some n\<rparr>, r)) (readOffset s)"
| "matchToken (Lit l) p s =
     (if take (length l) s = l then Some (p, drop (length l) s) else None)"

fun parseTokens :: "token list \<Rightarrow> parts \<Rightarrow> string \<Rightarrow> parts option" where
  "parseTokens [] p s = (if s = [] then Some p else None)"
| "parseTokens (t # ts) p s =
     (case matchToken t p s of None \<Rightarrow> None | Some (p', s') \<Rightarrow> parseTokens ts p' s')"

definition isLeapYear :: "int \<Rightarrow> bool" where
  "isLeapYear y \<longleftrightarrow> (y mod 4 = 0 \<and> y mod 100 \<noteq> 0) \<or> y mod 400 = 0"

definition daysInMonth :: "int \<Rightarrow> int \<Rightarrow> int" where
  "daysInMonth y m =
     (if m = 2 then (if isLeapYear y then 29 else 28)
      else if m = 4 \<or> m = 6 \<or> m = 9 \<or> m = 11 then 30 else 31)"

text \<open>The day number (days since 1970-01-01) of a proleptic Gregorian date.\<close>

definition days_from_civil :: "int \<Rightarrow> int \<Rightarrow> int \<Rightarrow> int" where
  "days_from_civil y m d =
     (let y' = (if m \<le> 2 then y - 1 else y);
          era = y' div 400;
          yoe = y' mod 400;
          doy = (153 * (if m > 2 then m - 3 else m + 9) + 2) div 5 + d - 1;
          doe = yoe * 365 + yoe div 4 - yoe div 100 + doy
      in era * 146097 + doe - 719468)"

definition meridiemFix :: "int \<Rightarrow> bool option \<Rightarrow> int" where
  "meridiemFix hour pm =
     (case pm of
        None \<Rightarrow> hour
      | Some isPm \<Rightarrow> if isPm \<and> hour < 12 then hour + 12
                     else if \<not> isPm \<and> hour = 12 then 0 else hour)"

text \<open>moment's overflow check of the parsed fields (hour 24 stands for the next midnight).\<close>

definition fieldsValid :: "parts \<Rightarrow> int \<Rightarrow> bool" where
  "fieldsValid p hour \<longleftrightarrow>
     1 \<le> p_month p \<and> p_month p \<le> 12
     \<and> 1 \<le> p_day p \<and> p_day p \<le> daysInMonth (p_year p) (p_month p)
     \<and> 0 \<le> hour \<and> hour \<le> 24
     \<and> (hour < 24 \<or> (p_minute p = 0 \<and> p_second p = 0 \<and> p_ms p = 0))
     \<and> 0 \<le> p_minute p \<and> p_minute p \<le> 59
     \<and> 0 \<le> p_second p \<and> p_second p \<le> 59"

definition momentStrict :: "host \<Rightarrow> token list \<Rightarrow> string \<Rightarrow> jsdate" where
  "momentStrict h fmt s =
     (case parseTokens fmt noParts s of
        None \<Rightarrow> InvalidDate
      | Some p \<Rightarrow>
          (let hour = meridiemFix (p_hour p) (p_pm p)
           in if \<not> fieldsValid p hour then InvalidDate
              else
                (let fields = days_from_civil (p_year p) (p_month p) (p_day p) * 86400000
                              + hour * 3600000 + p_minute p * 60000 + p_second p * 1000 + p_ms p
                 in case p_offset p of
                      None \<Rightarrow> Date (fields - localOffset h * 60000)
                    | Some off \<Rightarrow> Date (fields - off * 60000))))"

text \<open>
  The four formats of \<^verbatim>\<open>parseDate\<close>, in its order:
  \<^verbatim>\<open>'M/D/YYYY H:mm'\<close>, \<^verbatim>\<open>'M/D/YYYY H:mm:ss.SSS A'\<close>,
  \<^verbatim>\<open>'YYYY-MM-DDTHH:mm:ss.SSS[Z]'\<close> (the bracketed Z is a literal letter) and
  \<^verbatim>\<open>'YYYY-MM-DDTHH:mm:ss.SSS Z'\<close>.
\<close>

definition formats :: "token list list" where
  "formats =
     [[TokM, Lit ''/'', TokD, Lit ''/'', TokYYYY, Lit '' '', TokH, Lit '':'', Tokmm],
      [TokM, Lit ''/'', TokD, Lit ''/'', TokYYYY, Lit '' '', TokH, Lit '':'', Tokmm,
       Lit '':'', Tokss, Lit ''.'', TokSSS, Lit '' '', TokA],
      [TokYYYY, Lit ''-'', TokMM, Lit ''-'', TokDD, Lit ''T'', TokHH, Lit '':'', Tokmm,
       Lit '':'', Tokss, Lit ''.'', TokSSS, Lit ''Z''],
      [TokYYYY, Lit ''-'', TokMM, Lit ''-'', TokDD, Lit ''T'', TokHH, Lit '':'', Tokmm,
       Lit '':'', Tokss, Lit ''.'', TokSSS, Lit '' '', TokZ]]"

definition whitespace :: "char \<Rightarrow> bool" where
  "whitespace c \<longleftrightarrow> c \<in> set [CHR 0x09, CHR 0x0A, CHR 0x0B, CHR 0x0C, CHR 0x0D, CHR 0x20, CHR 0xA0]"

definition trim :: "string \<Rightarrow> string" where
  "trim s = rev (dropWhile whitespace (rev (dropWhile whitespace s)))"

text \<open>
  \<^verbatim>\<open>parsed.utc().toDate()\<close> gives a \<^verbatim>\<open>Date\<close> of the same time value as \<open>parsed\<close>: a
  moment's UTC flag changes how it is displayed, not which instant it is.
\<close>

definition parseDate :: "host \<Rightarrow> string option \<Rightarrow> jsdate option" where
  "parseDate h dateString =
     (case dateString of
        None \<Rightarrow> None
      | Some s \<Rightarrow>
          if s = [] \<or> trim s = [] then None
          else
            (case find (\<lambda>parsed. parsed \<noteq> InvalidDate) (map (\<lambda>f. momentStrict h f s) formats) of
               Some parsed \<Rightarrow> Some parsed
             | None \<Rightarrow>
                 (case momentLenient h s of
                    InvalidDate \<Rightarrow> None
                  | Date t \<Rightarrow> Some (Date t))))"

text \<open>\<^verbatim>\<open>/\d{4}-\d{2}-\d{2}T\d{2}:\d{2}:\d{2}\.\d{3}Z/\<close>: in the pattern below, d is a digit.\<close>

fun matchPattern :: "string \<Rightarrow> string \<Rightarrow> bool" where
  "matchPattern [] s = True"
| "matchPattern (q # qs) [] = False"
| "matchPattern (q # qs) (c # cs) =
     ((if q = CHR ''d'' then isDigit c else c = q) \<and> matchPattern qs cs)"

fun findTimestamp :: "string \<Rightarrow> string option" where
  "findTimestamp [] = None"
| "findTimestamp (c # cs) =
     (if matchPattern ''dddd-dd-ddTdd:dd:dd.dddZ'' (c # cs) then Some (take 24 (c # cs))
      else findTimestamp cs)"

definition extractTimestampFromTextPayload :: "host \<Rightarrow> string option \<Rightarrow> jsdate option" where
  "extractTimestampFromTextPayload h textPayload =
     (case textPayload of
        None \<Rightarrow> None
      | Some s \<Rightarrow>
          if \<not> truthy s then None
          else (case findTimestamp s of
                  Some timestampMatch \<Rightarrow> parseDate h (Some timestampMatch)
                | None \<Rightarrow> None))"

section \<open>jsonParser: auto-assignments from log entries\<close>

record AutoAssignment =
  aa_taskId :: string
  email :: "string option"
  timestamp :: "jsdate option"

record GcpItem =
  textPayload :: "string option"
  item_timestamp :: "string option"

text \<open>\<^verbatim>\<open>/TASK-\d+/\<close> and \<^verbatim>\<open>/email=([^,]+)/\<close>: the first match in the text.\<close>

fun findTaskId :: "string \<Rightarrow> string option" where
  "findTaskId [] = None"
| "findTaskId (c # cs) =
     (if take 5 (c # cs) = ''TASK-'' \<and> takeWhile isDigit (drop 5 (c # cs)) \<noteq> []
      then Some (''TASK-'' @ takeWhile isDigit (drop 5 (c # cs)))
      else findTaskId cs)"

fun findEmail :: "string \<Rightarrow> string option" where
  "findEmail [] = None"
| "findEmail (c # cs) =
     (if take 6 (c # cs) = ''email='' \<and> takeWhile (\<lambda>x. x \<noteq> CHR '','') (drop 6 (c # cs)) \<noteq> []
      then Some (takeWhile (\<lambda>x. x \<noteq> CHR '','') (drop 6 (c # cs)))
      else findEmail cs)"

text \<open>
  The timestamp of an entry: the explicit \<^verbatim>\<open>timestamp\<close> field when it is there (read by
  \<^verbatim>\<open>new Date\<close>), the first timestamp in the text otherwise.
\<close>

definition itemTimestamp :: "host \<Rightarrow> GcpItem \<Rightarrow> string \<Rightarrow> jsdate option" where
  "itemTimestamp h item payload =
     (case item_timestamp item of
        None \<Rightarrow> extractTimestampFromTextPayload h (Some payload)
      | Some raw \<Rightarrow>
          if truthy raw then Some (newDate h raw)
          else extractTimestampFromTextPayload h (Some payload))"

definition extractAutoAssignment :: "host \<Rightarrow> GcpItem \<Rightarrow> AutoAssignment option" where
  "extractAutoAssignment h item =
     (case textPayload item of
        None \<Rightarrow> None
      | Some payload \<Rightarrow>
          if \<not> truthy payload then None
          else
            (case findTaskId payload of
               None \<Rightarrow> None
             | Some tid \<Rightarrow>
                 (let em = map_option trim (findEmail payload)
                  in case itemTimestamp h item payload of
                       None \<Rightarrow> None
                     | Some InvalidDate \<Rightarrow> None
                     | Some (Date t) \<Rightarrow>
                         Some \<lparr>aa_taskId = tid, email = em, timestamp = Some (Date t)\<rparr>)))"

text \<open>The loop of \<^verbatim>\<open>parseGCPJson\<close> over the entries of the parsed file.\<close>

definition parseGCPJson :: "host \<Rightarrow> GcpItem list \<Rightarrow> AutoAssignment list" where
  "parseGCPJson h jsonData = List.map_filter (extractAutoAssignment h) jsonData"

section \<open>taskProcessor: records and indexes\<close>

text \<open>
  The rows as the transform functions of the CSV parser give them. The login email of a
  TaskActions row and the principal name of a Users row are used as they are (as the
  argument of a lookup and of \<^verbatim>\<open>match\<close>, as a key), so \<^verbatim>\<open>undefined\<close> is kept apart
  there. The other string fields are only tested for truthiness or compared with a
  string constant, where \<^verbatim>\<open>undefined\<close> behaves as the empty string does.
\<close>

record TaskAction =
  createdOn :: "jsdate option"
  actionLabel :: string
  rawProductiveTime :: "int option"
  taskId :: "string option"
  loginEmail :: "string option"
  taskOpenTime :: "jsdate option"

record TaskHistory =
  taskH :: string
  th_taskId :: string
  workStatus :: string
  mcStatus :: string
  action :: string
  actionTimestamp :: "jsdate option"
  lastModifiedByUser :: string

record User =
  user_id :: string
  userPrincipalName :: "string option"
  displayName :: string

record AssignToMe =
  atm_timestamp :: "jsdate option"
  message :: string
  severityLevel :: string
  itemType :: string
  tasknum :: "string option"

record ScreenOpen =
  so_timestamp :: "jsdate option"
  so_email :: string
  so_name :: string

record TaskProcessor =
  taskActionIndex :: "(string, TaskAction list) jsmap"
  taskHistoryIndex :: "(string, TaskHistory list) jsmap"
  userIndex :: "(string option, string) jsmap"
  autoAssignmentIndex :: "(string, AutoAssignment) jsmap"
  openTimeIndex :: "(string, jsdate option) jsmap"
  screenOpenIndex :: "(string, jsdate option list) jsmap"

definition newTaskProcessor :: TaskProcessor where
  "newTaskProcessor =
     \<lparr>taskActionIndex = [], taskHistoryIndex = [], userIndex = [],
      autoAssignmentIndex = [], openTimeIndex = [], screenOpenIndex = []\<rparr>"

definition buildTaskActionIndex :: "TaskProcessor \<Rightarrow> TaskAction list \<Rightarrow> TaskProcessor" where
  "buildTaskActionIndex tp taskActions =
     tp\<lparr>taskActionIndex :=
          foldl (\<lambda>idx a. case taskId a of
                            None \<Rightarrow> idx
                          | Some t \<Rightarrow> if truthy t then Map_push idx t a else idx)
                (taskActionIndex tp) taskActions\<rparr>"

definition buildTaskHistoryIndex :: "TaskProcessor \<Rightarrow> TaskHistory list \<Rightarrow> TaskProcessor" where
  "buildTaskHistoryIndex tp taskHistories =
     tp\<lparr>taskHistoryIndex :=
          foldl (\<lambda>idx h. if truthy (th_taskId h) then Map_push idx (th_taskId h) h else idx)
                (taskHistoryIndex tp) taskHistories\<rparr>"

definition buildUserIndex :: "TaskProcessor \<Rightarrow> User list \<Rightarrow> TaskProcessor" where
  "buildUserIndex tp users =
     tp\<lparr>userIndex :=
          foldl (\<lambda>idx u. Map_set idx (userPrincipalName u) (displayName u))
                (userIndex tp) users\<rparr>"

definition buildAutoAssignmentIndex :: "TaskProcessor \<Rightarrow> AutoAssignment list \<Rightarrow> TaskProcessor" where
  "buildAutoAssignmentIndex tp autoAssignments =
     tp\<lparr>autoAssignmentIndex :=
          foldl (\<lambda>idx a. if truthy (aa_taskId a) then Map_set idx (aa_taskId a) a else idx)
                (autoAssignmentIndex tp) autoAssignments\<rparr>"

definition buildOpenTimeIndex :: "TaskProcessor \<Rightarrow> AssignToMe list \<Rightarrow> TaskProcessor" where
  "buildOpenTimeIndex tp assignToMeData =
     tp\<lparr>openTimeIndex :=
          foldl (\<lambda>idx a. case tasknum a of
                            None \<Rightarrow> idx
                          | Some t \<Rightarrow> if truthy t then Map_set idx t (atm_timestamp a) else idx)
                (openTimeIndex tp) assignToMeData\<rparr>"

definition buildScreenOpenIndex :: "TaskProcessor \<Rightarrow> ScreenOpen list \<Rightarrow> TaskProcessor" where
  "buildScreenOpenIndex tp screenOpenData =
     tp\<lparr>screenOpenIndex :=
          foldl (\<lambda>idx ev. if truthy (so_email ev)
                           then Map_push idx (so_email ev) (so_timestamp ev) else idx)
                (screenOpenIndex tp) screenOpenData\<rparr>"

section \<open>taskProcessor: lookups per task\<close>

text \<open>
  \<^verbatim>\<open>openTimes.reduce((earliest, current) => current < earliest ? current : earliest)\<close>
  starts from the first element. The user's email may be \<^verbatim>\<open>null\<close>, which is no key of
  the index.
\<close>

definition getFirstScreenOpenTime :: "TaskProcessor \<Rightarrow> string option \<Rightarrow> jsdate option" where
  "getFirstScreenOpenTime tp em =
     (case em of
        None \<Rightarrow> None
      | Some e \<Rightarrow>
          (case Map_get (screenOpenIndex tp) e of
             None \<Rightarrow> None
           | Some [] \<Rightarrow> None
           | Some (x # xs) \<Rightarrow>
               foldl (\<lambda>earliest current. if js_lt current earliest then current else earliest)
                     x xs))"

definition getScreenOpenTimes :: "TaskProcessor \<Rightarrow> string option \<Rightarrow> jsdate option list" where
  "getScreenOpenTimes tp em =
     (case em of
        None \<Rightarrow> []
      | Some e \<Rightarrow> (case Map_get (screenOpenIndex tp) e of None \<Rightarrow> [] | Some xs \<Rightarrow> xs))"

definition getOpenTime :: "TaskProcessor \<Rightarrow> string \<Rightarrow> jsdate option" where
  "getOpenTime tp t = (case Map_get (openTimeIndex tp) t of None \<Rightarrow> None | Some v \<Rightarrow> v)"

definition getCreatedTime :: "TaskProcessor \<Rightarrow> string \<Rightarrow> jsdate option" where
  "getCreatedTime tp t =
     (case Map_get (taskHistoryIndex tp) t of
        None \<Rightarrow> None
      | Some histories \<Rightarrow>
          (case find (\<lambda>h. mcStatus h = ''PMA'' \<and> action h = ''IN'') histories of
             None \<Rightarrow> None
           | Some taskCreation \<Rightarrow> actionTimestamp taskCreation))"

definition getManualAssignedTime :: "TaskProcessor \<Rightarrow> string \<Rightarrow> jsdate option" where
  "getManualAssignedTime tp t =
     (case Map_get (taskHistoryIndex tp) t of
        None \<Rightarrow> None
      | Some histories \<Rightarrow>
          (case find (\<lambda>h. mcStatus h = ''PME'' \<and> action h = ''AS'') histories of
             None \<Rightarrow> None
           | Some taskAssignment \<Rightarrow> actionTimestamp taskAssignment))"

definition getAutoAssignedTime :: "TaskProcessor \<Rightarrow> string \<Rightarrow> jsdate option" where
  "getAutoAssignedTime tp t =
     (case Map_get (autoAssignmentIndex tp) t of
        None \<Rightarrow> None
      | Some autoAssignment \<Rightarrow> timestamp autoAssignment)"

definition getMakerCompleteTime :: "TaskProcessor \<Rightarrow> string \<Rightarrow> jsdate option" where
  "getMakerCompleteTime tp t =
     (case Map_get (taskHistoryIndex tp) t of
        None \<Rightarrow> None
      | Some histories \<Rightarrow>
          (case find (\<lambda>h. mcStatus h = ''PCA'' \<and> action h = ''SC'') histories of
             None \<Rightarrow> None
           | Some makerComplete \<Rightarrow> actionTimestamp makerComplete))"

datatype mode = Auto | Manual | Unknown

definition determineMode :: "TaskProcessor \<Rightarrow> string \<Rightarrow> mode" where
  "determineMode tp t =
     (if Map_has (autoAssignmentIndex tp) t then Auto
      else if Map_has (taskActionIndex tp) t then Manual
      else Unknown)"

definition getAssignedTime :: "TaskProcessor \<Rightarrow> string \<Rightarrow> jsdate option" where
  "getAssignedTime tp t =
     (if determineMode tp t = Auto then getAutoAssignedTime tp t
      else getManualAssignedTime tp t)"

definition calculateWaitingTime :: "TaskProcessor \<Rightarrow> string \<Rightarrow> int option" where
  "calculateWaitingTime tp t =
     (let createdTime = getCreatedTime tp t;
          assignedTime = getAssignedTime tp t
      in if createdTime = None \<or> assignedTime = None then None
         else calculateTimeDifferenceMinutes createdTime assignedTime)"

text \<open>
  The email may be \<^verbatim>\<open>undefined\<close> (\<open>None\<close>): it is then returned as it is when the
  index has no display name for it, and the template literal writes it as "undefined".
  An absent display name is falsy as the empty one is.
\<close>

definition getUserDisplayName :: "TaskProcessor \<Rightarrow> string option \<Rightarrow> string option" where
  "getUserDisplayName tp em =
     (case Map_get (userIndex tp) em of
        None \<Rightarrow> em
      | Some dn \<Rightarrow>
          if truthy dn
          then Some (dn @ '' ('' @ (case em of None \<Rightarrow> ''undefined'' | Some e \<Rightarrow> e) @ '')'')
          else em)"

section \<open>taskProcessor: the main report\<close>

record ReportRecord =
  task :: string
  userName :: string
  userEmail :: string
  mode :: mode
  createdTime :: string
  assignedTime :: string
  makerCompleteTime :: string
  openTime :: string
  productiveTime :: "int option"
  waitingTime :: "int option"

text \<open>\<^verbatim>\<open>d ? d.toISOString() : ''\<close>\<close>

definition isoOrEmpty :: "jsdate option \<Rightarrow> error + string" where
  "isoOrEmpty d = (case d of None \<Rightarrow> Inr [] | Some x \<Rightarrow> toISOString x)"

text \<open>
  \<^verbatim>\<open>user.match(/^(.*?) \((.*?)\)$/)\<close>: the first group is the shortest prefix after
  which the rest of the string is a blank, an opening parenthesis, the second group and a
  closing parenthesis at the very end; the dot matches no line terminator. Strings are
  lists of 8-bit characters here, so the two line terminators are LF and CR.
\<close>

definition lineTerminator :: "char \<Rightarrow> bool" where
  "lineTerminator c \<longleftrightarrow> c = CHR 0x0A \<or> c = CHR 0x0D"

definition matchTail :: "string \<Rightarrow> string option" where
  "matchTail s =
     (case s of
        c1 # c2 # rest \<Rightarrow>
          if c1 = CHR '' '' \<and> c2 = CHR ''('' \<and> rest \<noteq> [] \<and> last rest = CHR '')''
             \<and> list_all (\<lambda>c. \<not> lineTerminator c) (butlast rest)
          then Some (butlast rest) else None
      | _ \<Rightarrow> None)"

fun userMatch :: "string \<Rightarrow> string \<Rightarrow> (string \<times> string) option" where
  "userMatch g1 [] = None"
| "userMatch g1 (c # cs) =
     (case matchTail (c # cs) of
        Some g2 \<Rightarrow> Some (g1, g2)
      | None \<Rightarrow> if lineTerminator c then None else userMatch (g1 @ [c]) cs)"

definition splitUser :: "string \<Rightarrow> string \<times> string" where
  "splitUser user =
     (if user \<noteq> ''Unknown'' then
        (case userMatch [] user of Some (n, e) \<Rightarrow> (n, e) | None \<Rightarrow> (user, user))
      else (''Unknown'', ''Unknown''))"

text \<open>
  The user string of a task: \<^verbatim>\<open>undefined\<close> when the first action of the task has no
  login email and the index no display name for \<^verbatim>\<open>undefined\<close>.
\<close>

definition resolveUser :: "TaskProcessor \<Rightarrow> string \<Rightarrow> string option" where
  "resolveUser tp t =
     (case Map_get (taskActionIndex tp) t of
        Some (a # as) \<Rightarrow> getUserDisplayName tp (loginEmail a)
      | _ \<Rightarrow>
          (case Map_get (autoAssignmentIndex tp) t of
             None \<Rightarrow> Some ''Unknown''
           | Some autoAssignment \<Rightarrow>
               (case email autoAssignment of
                  None \<Rightarrow> Some ''Unknown''
                | Some e \<Rightarrow>
                    if truthy e then getUserDisplayName tp (Some e) else Some ''Unknown'')))"

text \<open>
  \<^verbatim>\<open>if (user !== 'Unknown') { const match = user.match(...) ... }\<close>: on an
  \<^verbatim>\<open>undefined\<close> user the call of \<^verbatim>\<open>match\<close> throws a TypeError.
\<close>

definition userComponents :: "string option \<Rightarrow> error + string \<times> string" where
  "userComponents user = (case user of None \<Rightarrow> Inl TypeError | Some u \<Rightarrow> Inr (splitUser u))"

text \<open>
  The body of the first loop of \<^verbatim>\<open>generateReport\<close>, for one task id. The user is
  split before the four dates are serialised for the new record.
\<close>

definition draftRecord :: "TaskProcessor \<Rightarrow> string \<Rightarrow> error + ReportRecord" where
  "draftRecord tp t =
     (let md = determineMode tp t;
          created = getCreatedTime tp t;
          assigned = getAssignedTime tp t;
          makerComplete = getMakerCompleteTime tp t;
          opened = getOpenTime tp t;
          user = resolveUser tp t
      in bindE (userComponents user) (\<lambda>(name, em).
             bindE (isoOrEmpty created) (\<lambda>c.
             bindE (isoOrEmpty assigned) (\<lambda>a.
             bindE (isoOrEmpty makerComplete) (\<lambda>m.
             bindE (isoOrEmpty opened) (\<lambda>opn.
               Inr \<lparr>task = t, userName = name, userEmail = em, mode = md,
                    createdTime = c, assignedTime = a, makerCompleteTime = m,
                    openTime = opn, productiveTime = None, waitingTime = None\<rparr>))))))"

fun draftPass :: "TaskProcessor \<Rightarrow> string list \<Rightarrow> error + ReportRecord list" where
  "draftPass tp [] = Inr []"
| "draftPass tp (t # ts) =
     bindE (draftRecord tp t) (\<lambda>r. bindE (draftPass tp ts) (\<lambda>rs. Inr (r # rs)))"

definition allTaskIds :: "TaskProcessor \<Rightarrow> string list" where
  "allTaskIds tp =
     foldl Set_add
       (foldl Set_add
          (foldl Set_add [] (Map_keys (taskActionIndex tp)))
          (Map_keys (taskHistoryIndex tp)))
       (Map_keys (autoAssignmentIndex tp))"

definition findRecordByTaskId :: "ReportRecord list \<Rightarrow> string \<Rightarrow> ReportRecord option" where
  "findRecordByTaskId currentReportRecords t = find (\<lambda>r. task r = t) currentReportRecords"

definition calculateProductiveTime ::
  "host \<Rightarrow> ReportRecord list \<Rightarrow> string \<Rightarrow> int option" where
  "calculateProductiveTime h currentReportRecords t =
     (case findRecordByTaskId currentReportRecords t of
        None \<Rightarrow> None
      | Some record \<Rightarrow>
          (let assigned = (if truthy (assignedTime record)
                           then Some (newDate h (assignedTime record)) else None);
               makerComplete = (if truthy (makerCompleteTime record)
                                then Some (newDate h (makerCompleteTime record)) else None)
           in if assigned = None \<or> makerComplete = None then None
              else calculateTimeDifferenceMinutes assigned makerComplete))"

text \<open>
  The second loop updates the records of \<^verbatim>\<open>reportRecords\<close> in place, one after the
  other. \<open>deriveRecord\<close> is its body, given the array as it stands; in \<open>derivePass\<close>,
  \<open>done\<close> are the records already updated, and \<^verbatim>\<open>currentReportRecords\<close> is the same
  array, so each step reads \<open>done @ r # todo\<close>.
\<close>

definition deriveRecord ::
  "host \<Rightarrow> TaskProcessor \<Rightarrow> ReportRecord list \<Rightarrow> ReportRecord \<Rightarrow> ReportRecord" where
  "deriveRecord h tp currentReportRecords r =
     r\<lparr>productiveTime := calculateProductiveTime h currentReportRecords (task r),
       waitingTime := calculateWaitingTime tp (task r)\<rparr>"

fun derivePass ::
  "host \<Rightarrow> TaskProcessor \<Rightarrow> ReportRecord list \<Rightarrow> ReportRecord list \<Rightarrow> ReportRecord list" where
  "derivePass h tp done [] = done"
| "derivePass h tp done (r # todo) =
     derivePass h tp (done @ [deriveRecord h tp (done @ r # todo) r]) todo"

definition generateReport :: "host \<Rightarrow> TaskProcessor \<Rightarrow> error + ReportRecord list" where
  "generateReport h tp =
     bindE (draftPass tp (allTaskIds tp)) (\<lambda>reportRecords.
       Inr (derivePass h tp [] reportRecords))"

section \<open>taskProcessor: the auto task open analysis\<close>

record AnalysisRecord =
  an_taskId :: string
  an_userEmail :: "string option"
  an_userName :: "string option"
  an_assignedTime :: string
  firstScreenOpenTime :: string
  timeToOpenMinutes :: "int option"
  screenOpenCount :: nat
  assignmentDate :: string

definition timeToOpen :: "jsdate option \<Rightarrow> jsdate option \<Rightarrow> int option" where
  "timeToOpen assigned firstOpen =
     (if assigned \<noteq> None \<and> firstOpen \<noteq> None \<and> js_lt assigned firstOpen
      then calculateTimeDifferenceMinutes assigned firstOpen else None)"

definition analysisRecord :: "TaskProcessor \<Rightarrow> string \<times> AutoAssignment \<Rightarrow> error + AnalysisRecord" where
  "analysisRecord tp entry =
     (case entry of
        (t, autoAssignment) \<Rightarrow>
          (let assigned = timestamp autoAssignment;
               em = email autoAssignment;
               firstOpen = getFirstScreenOpenTime tp em
           in bindE (isoOrEmpty assigned) (\<lambda>a.
              bindE (isoOrEmpty firstOpen) (\<lambda>f.
                Inr \<lparr>an_taskId = t, an_userEmail = em,
                     an_userName =
                       (case em of None \<Rightarrow> None | Some e \<Rightarrow> getUserDisplayName tp (Some e)),
                     an_assignedTime = a, firstScreenOpenTime = f,
                     timeToOpenMinutes = timeToOpen assigned firstOpen,
                     screenOpenCount = length (getScreenOpenTimes tp em),
                     assignmentDate = takeWhile (\<lambda>c. c \<noteq> CHR ''T'') a\<rparr>))))"

fun analysisPass :: "TaskProcessor \<Rightarrow> (string \<times> AutoAssignment) list \<Rightarrow> error + AnalysisRecord list" where
  "analysisPass tp [] = Inr []"
| "analysisPass tp (e # es) =
     bindE (analysisRecord tp e) (\<lambda>r. bindE (analysisPass tp es) (\<lambda>rs. Inr (r # rs)))"

definition generateAutoTaskOpenAnalysis :: "TaskProcessor \<Rightarrow> error + AnalysisRecord list" where
  "generateAutoTaskOpenAnalysis tp = analysisPass tp (autoAssignmentIndex tp)"

section \<open>index: building the six indexes\<close>

text \<open>
  \<^verbatim>\<open>generateTaskPerformanceReport\<close> builds the indexes of a fresh processor from the six
  parsed collections, in this order, before it asks for the report.
\<close>

definition processorOf ::
  "TaskAction list \<Rightarrow> TaskHistory list \<Rightarrow> User list \<Rightarrow> AutoAssignment list \<Rightarrow> AssignToMe list
     \<Rightarrow> ScreenOpen list \<Rightarrow> TaskProcessor" where
  "processorOf userAvailabilityData taskHistoryData userData gcpData assignToMeData screenOpenData =
     buildScreenOpenIndex
       (buildOpenTimeIndex
          (buildAutoAssignmentIndex
             (buildUserIndex
                (buildTaskHistoryIndex
                   (buildTaskActionIndex newTaskProcessor userAvailabilityData)
                   taskHistoryData)
                userData)
             gcpData)
          assignToMeData)
       screenOpenData"

section \<open>Indexes without invalid dates\<close>

text \<open>
  The parsers of the repository never put an invalid date into a record: \<^verbatim>\<open>parseDate\<close>
  gives a valid date or \<^verbatim>\<open>null\<close>, and \<^verbatim>\<open>extractAutoAssignment\<close> drops an entry whose
  date is invalid. \<open>datesValid\<close> says so of the three indexes whose dates the report
  serialises.
\<close>

definition validStamp :: "jsdate option \<Rightarrow> bool" where
  "validStamp d \<longleftrightarrow> d \<noteq> Some InvalidDate"

text \<open>
  \<open>loginsDefined\<close>: the first action of every task has a login email (the column
  "Login Email" was there).
\<close>

definition loginsDefined :: "TaskProcessor \<Rightarrow> bool" where
  "loginsDefined tp \<longleftrightarrow>
     list_all (\<lambda>e. case snd e of [] \<Rightarrow> True | a # as \<Rightarrow> loginEmail a \<noteq> None)
       (taskActionIndex tp)"

definition datesValid :: "TaskProcessor \<Rightarrow> bool" where
  "datesValid tp \<longleftrightarrow>
     list_all (\<lambda>e. list_all (\<lambda>h. validStamp (actionTimestamp h)) (snd e)) (taskHistoryIndex tp)
     \<and> list_all (\<lambda>e. validStamp (timestamp (snd e))) (autoAssignmentIndex tp)
     \<and> list_all (\<lambda>e. validStamp (snd e)) (openTimeIndex tp)"

section \<open>Example data\<close>

text \<open>
  A host for the examples. Its \<^verbatim>\<open>new Date\<close> reads the text form of \<^verbatim>\<open>toISOString\<close>
  (four-digit year, \<^verbatim>\<open>Z\<close> or a numeric offset at the end) and nothing else.
\<close>

definition isoNewDate :: "string \<Rightarrow> jsdate" where
  "isoNewDate s =
     (case parseTokens
             [TokYYYY, Lit ''-'', TokMM, Lit ''-'', TokDD, Lit ''T'', TokHH, Lit '':'', Tokmm,
              Lit '':'', Tokss, Lit ''.'', TokSSS, TokZ] noParts s of
        None \<Rightarrow> InvalidDate
      | Some p \<Rightarrow>
          if \<not> fieldsValid p (p_hour p) then InvalidDate
          else Date (days_from_civil (p_year p) (p_month p) (p_day p) * 86400000
                     + p_hour p * 3600000 + p_minute p * 60000 + p_second p * 1000 + p_ms p
                     - (case p_offset p of None \<Rightarrow> 0 | Some off \<Rightarrow> off) * 60000))"

definition exampleHost :: "int \<Rightarrow> host" where
  "exampleHost off =
     \<lparr>localOffset = off, newDate = isoNewDate, momentLenient = (\<lambda>s. InvalidDate)\<rparr>"

definition mkAction :: "string option \<Rightarrow> string \<Rightarrow> TaskAction" where
  "mkAction tid em =
     \<lparr>createdOn = None, actionLabel = ''Task Opened'', rawProductiveTime = None,
      taskId = tid, loginEmail = Some em, taskOpenTime = None\<rparr>"

definition mkHistory :: "string \<Rightarrow> string \<Rightarrow> string \<Rightarrow> jsdate option \<Rightarrow> TaskHistory" where
  "mkHistory tid status act ts =
     \<lparr>taskH = ''TaskH-1'', th_taskId = tid, workStatus = ''RR'', mcStatus = status,
      action = act, actionTimestamp = ts, lastModifiedByUser = ''User A''\<rparr>"

definition mkAuto :: "string \<Rightarrow> string option \<Rightarrow> jsdate option \<Rightarrow> AutoAssignment" where
  "mkAuto tid em ts = \<lparr>aa_taskId = tid, email = em, timestamp = ts\<rparr>"

definition mkUser :: "string \<Rightarrow> string \<Rightarrow> User" where
  "mkUser upn dn = \<lparr>user_id = ''1'', userPrincipalName = Some upn, displayName = dn\<rparr>"

definition mkOpen :: "string option \<Rightarrow> jsdate option \<Rightarrow> AssignToMe" where
  "mkOpen tn ts =
     \<lparr>atm_timestamp = ts, message = ''assigntome'', severityLevel = ''1'',
      itemType = ''trace'', tasknum = tn\<rparr>"

definition mkScreenOpen :: "string \<Rightarrow> jsdate option \<Rightarrow> ScreenOpen" where
  "mkScreenOpen em ts = \<lparr>so_timestamp = ts, so_email = em, so_name = ''User''\<rparr>"

text \<open>
  The times of the examples, all on 2025-08-25 (UTC): 08:00 is 1756108800000,
  08:10 is 1756109400000, 08:30 is 1756110600000, 10:00:30 is 1756116030000.
\<close>

definition exampleActions :: "TaskAction list" where
  "exampleActions =
     [mkAction (Some ''TASK-1'') ''b@x.com'', mkAction None ''nobody@x.com'',
      mkAction (Some ''TASK-3'') ''c@x.com'', mkAction (Some ''TASK-5'') ''b@x.com'',
      mkAction (Some ''TASK-3'') ''b@x.com'']"

definition exampleHistories :: "TaskHistory list" where
  "exampleHistories =
     [mkHistory ''TASK-3'' ''PMA'' ''IN'' (Some (Date 1756109400000)),
      mkHistory ''TASK-1'' ''PME'' ''RR'' (Some (Date 1756108800000)),
      mkHistory ''TASK-3'' ''PME'' ''AS'' (Some (Date 1756110600000)),
      mkHistory ''TASK-3'' ''PCA'' ''SC'' (Some (Date 1756116030000)),
      mkHistory ''TASK-3'' ''PMA'' ''IN'' (Some (Date 1756108800000)),
      mkHistory ''TASK-5'' ''PME'' ''AS'' (Some (Date 1756116030000)),
      mkHistory ''TASK-4'' ''PMA'' ''IN'' (Some (Date 1756108800000))]"

definition exampleUsers :: "User list" where
  "exampleUsers = [mkUser ''b@x.com'' ''User B'', mkUser ''svc@x.com'' ''Service'']"

definition exampleAutos :: "AutoAssignment list" where
  "exampleAutos =
     [mkAuto ''TASK-2'' (Some ''svc@x.com'') (Some (Date 1756108800000)),
      mkAuto ''TASK-5'' (Some ''b@x.com'') (Some (Date 1756110600000)),
      mkAuto ''TASK-2'' (Some ''svc@x.com'') (Some (Date 1756109400000))]"

definition exampleOpens :: "AssignToMe list" where
  "exampleOpens =
     [mkOpen (Some ''TASK-9'') (Some (Date 1756110600000)),
      mkOpen (Some ''TASK-3'') (Some (Date 1756116030000))]"

definition exampleScreenOpens :: "ScreenOpen list" where
  "exampleScreenOpens =
     [mkScreenOpen ''svc@x.com'' (Some (Date 1756116030000)),
      mkScreenOpen ''svc@x.com'' (Some (Date 1756110600000))]"

definition exampleProcessor :: TaskProcessor where
  "exampleProcessor =
     processorOf exampleActions exampleHistories exampleUsers exampleAutos exampleOpens
       exampleScreenOpens"

definition exampleItems :: "GcpItem list" where
  "exampleItems =
     [\<lparr>textPayload = Some ''Assigned TASK-2 email=svc@x.com, ok'',
       item_timestamp = Some ''2025-08-25T08:00:00.000Z''\<rparr>,
      \<lparr>textPayload = Some ''Assigned nothing email=svc@x.com, ok'',
       item_timestamp = Some ''2025-08-25T08:05:00.000Z''\<rparr>,
      \<lparr>textPayload = Some ''Assigned TASK-7 email=b@x.com, ok'',
       item_timestamp = Some ''yesterday''\<rparr>,
      \<lparr>textPayload = Some ''Assigned TASK-2 email=b@x.com, ok'',
       item_timestamp = Some ''2025-08-25T08:10:00.000Z''\<rparr>]"

text \<open>The report of the example processor on a host in the UTC zone.\<close>

definition exampleReport :: "ReportRecord list" where
  "exampleReport =
     [\<lparr>task = ''TASK-1'', userName = ''User B'', userEmail = ''b@x.com'', mode = Manual,
       createdTime = [], assignedTime = [], makerCompleteTime = [], openTime = [],
       productiveTime = None, waitingTime = None\<rparr>,
      \<lparr>task = ''TASK-3'', userName = ''c@x.com'', userEmail = ''c@x.com'', mode = Manual,
       createdTime = ''2025-08-25T08:10:00.000Z'', assignedTime = ''2025-08-25T08:30:00.000Z'',
       makerCompleteTime = ''2025-08-25T10:00:30.000Z'', openTime = ''2025-08-25T10:00:30.000Z'',
       productiveTime = Some 90, waitingTime = Some 20\<rparr>,
      \<lparr>task = ''TASK-5'', userName = ''User B'', userEmail = ''b@x.com'', mode = Auto,
       createdTime = [], assignedTime = ''2025-08-25T08:30:00.000Z'', makerCompleteTime = [],
       openTime = [], productiveTime = None, waitingTime = None\<rparr>,
      \<lparr>task = ''TASK-4'', userName = ''Unknown'', userEmail = ''Unknown'', mode = Unknown,
       createdTime = ''2025-08-25T08:00:00.000Z'', assignedTime = [], makerCompleteTime = [],
       openTime = [], productiveTime = None, waitingTime = None\<rparr>,
      \<lparr>task = ''TASK-2'', userName = ''Service'', userEmail = ''svc@x.com'', mode = Auto,
       createdTime = [], assignedTime = ''2025-08-25T08:10:00.000Z'', makerCompleteTime = [],
       openTime = [], productiveTime = None, waitingTime = None\<rparr>]"

text \<open>A host whose \<^verbatim>\<open>new Date\<close> reads no text at all.\<close>

definition deafHost :: host where
  "deafHost = \<lparr>localOffset = 0, newDate = (\<lambda>s. InvalidDate), momentLenient = (\<lambda>s. InvalidDate)\<rparr>"

text \<open>
  One auto-assignment at 08:00 for a user with two screen-open rows, the first stamped
  08:30, the second with a timestamp that \<^verbatim>\<open>parseDate\<close> could not read (\<^verbatim>\<open>null\<close>).
\<close>

definition nullStampScreenOpens :: "ScreenOpen list" where
  "nullStampScreenOpens =
     [mkScreenOpen ''svc@x.com'' (Some (Date 1756110600000)), mkScreenOpen ''svc@x.com'' None]"

definition nullStampProcessor :: TaskProcessor where
  "nullStampProcessor =
     processorOf [] [] exampleUsers
       [mkAuto ''TASK-2'' (Some ''svc@x.com'') (Some (Date 1756108800000))] []
       nullStampScreenOpens"

text \<open>A task whose only action comes from a row without the "Login Email" column.\<close>

definition noLoginProcessor :: TaskProcessor where
  "noLoginProcessor =
     processorOf [(mkAction (Some ''TASK-1'') [])\<lparr>loginEmail := None\<rparr>] [] exampleUsers [] [] []"

text \<open>
  A task opened by a user whose display name has a part in parentheses, as directory
  names often have.
\<close>

definition parenProcessor :: TaskProcessor where
  "parenProcessor =
     processorOf [mkAction (Some ''TASK-1'') ''jane@x.com''] []
       [mkUser ''jane@x.com'' ''Doe, Jane (Consultant)''] [] [] []"

section \<open>Facts about Map and Set\<close>

lemma Map_get_Nil: "Map_get [] k = None"
  by (simp add: Map_get_def)

lemma Map_keys_Nil: "Map_keys [] = []"
  by (simp add: Map_keys_def)

lemma Map_get_set: "Map_get (Map_set m k v) k' = (if k' = k then Some v else Map_get m k')"
  by (simp add: Map_get_def Map_set_def update_conv')

lemma Map_keys_set: "set (Map_keys (Map_set m k v)) = insert k (set (Map_keys m))"
  using dom_update [of k v m] by (simp add: Map_keys_def Map_set_def)

lemma Map_has_keys: "Map_has m k \<longleftrightarrow> k \<in> set (Map_keys m)"
  by (simp add: Map_has_def Map_keys_def map_of_eq_None_iff)

lemma Map_has_Map_get: "Map_has m k \<longleftrightarrow> Map_get m k \<noteq> None"
  by (simp add: Map_has_def Map_get_def)

lemma Map_get_SomeD: "Map_get m k = Some v \<Longrightarrow> (k, v) \<in> set m"
  by (simp add: Map_get_def map_of_SomeD)

lemma Map_keys_distinct_set: "distinct (Map_keys m) \<Longrightarrow> distinct (Map_keys (Map_set m k v))"
  by (simp add: Map_keys_def Map_set_def distinct_update)

lemma Map_get_push:
  "Map_get (Map_push m k v) k' =
     (if k' = k then Some ((case Map_get m k of None \<Rightarrow> [] | Some xs \<Rightarrow> xs) @ [v])
      else Map_get m k')"
  by (cases "Map_get m k") (simp_all add: Map_push_def Map_get_set Map_has_Map_get Let_def)

lemma set_foldl_Set_add: "set (foldl Set_add s xs) = set s \<union> set xs"
  by (induction xs arbitrary: s) (auto simp: Set_add_def)

lemma distinct_foldl_Set_add: "distinct s \<Longrightarrow> distinct (foldl Set_add s xs)"
  by (induction xs arbitrary: s) (auto simp: Set_add_def)

section \<open>The indexes hold the source records in ingestion order\<close>

lemma processorOf_indexes:
  "taskActionIndex (processorOf acts hs us gs os ss) =
     foldl (\<lambda>idx a. case taskId a of None \<Rightarrow> idx
                     | Some t \<Rightarrow> if truthy t then Map_push idx t a else idx) [] acts"
  "taskHistoryIndex (processorOf acts hs us gs os ss) =
     foldl (\<lambda>idx h. if truthy (th_taskId h) then Map_push idx (th_taskId h) h else idx) [] hs"
  "userIndex (processorOf acts hs us gs os ss) =
     foldl (\<lambda>idx u. Map_set idx (userPrincipalName u) (displayName u)) [] us"
  "autoAssignmentIndex (processorOf acts hs us gs os ss) =
     foldl (\<lambda>idx a. if truthy (aa_taskId a) then Map_set idx (aa_taskId a) a else idx) [] gs"
  "openTimeIndex (processorOf acts hs us gs os ss) =
     foldl (\<lambda>idx a. case tasknum a of None \<Rightarrow> idx
                     | Some t \<Rightarrow> if truthy t then Map_set idx t (atm_timestamp a) else idx) [] os"
  "screenOpenIndex (processorOf acts hs us gs os ss) =
     foldl (\<lambda>idx ev. if truthy (so_email ev)
                      then Map_push idx (so_email ev) (so_timestamp ev) else idx) [] ss"
  by (simp_all add: processorOf_def buildTaskActionIndex_def buildTaskHistoryIndex_def
      buildUserIndex_def buildAutoAssignmentIndex_def buildOpenTimeIndex_def
      buildScreenOpenIndex_def newTaskProcessor_def)

lemma history_fold_get:
  "truthy t \<Longrightarrow>
   Map_get (foldl (\<lambda>idx h. if truthy (th_taskId h) then Map_push idx (th_taskId h) h else idx)
                  idx hs) t =
     (if Map_get idx t = None \<and> filter (\<lambda>h. th_taskId h = t) hs = [] then None
      else Some ((case Map_get idx t of None \<Rightarrow> [] | Some xs \<Rightarrow> xs)
                 @ filter (\<lambda>h. th_taskId h = t) hs))"
proof (induction hs arbitrary: idx)
  case Nil
  then show ?case by (simp split: option.splits)
next
  case (Cons h hs)
  then show ?case by (simp add: Map_get_push split: option.splits)
qed

lemma history_index_of_sources:
  assumes "truthy t"
  shows "Map_get (taskHistoryIndex (processorOf acts hs us gs os ss)) t =
           (if filter (\<lambda>h. th_taskId h = t) hs = [] then None
            else Some (filter (\<lambda>h. th_taskId h = t) hs))"
  using assms by (simp add: processorOf_indexes history_fold_get Map_get_Nil)

lemma action_fold_get:
  "truthy t \<Longrightarrow>
   Map_get (foldl (\<lambda>idx a. case taskId a of None \<Rightarrow> idx
                           | Some t \<Rightarrow> if truthy t then Map_push idx t a else idx) idx acts) t =
     (if Map_get idx t = None \<and> filter (\<lambda>a. taskId a = Some t) acts = [] then None
      else Some ((case Map_get idx t of None \<Rightarrow> [] | Some xs \<Rightarrow> xs)
                 @ filter (\<lambda>a. taskId a = Some t) acts))"
proof (induction acts arbitrary: idx)
  case Nil
  then show ?case by (simp split: option.splits)
next
  case (Cons a acts)
  then show ?case by (cases "taskId a") (auto simp: Map_get_push split: option.splits)
qed

lemma action_index_of_sources:
  assumes "truthy t"
  shows "Map_get (taskActionIndex (processorOf acts hs us gs os ss)) t =
           (if filter (\<lambda>a. taskId a = Some t) acts = [] then None
            else Some (filter (\<lambda>a. taskId a = Some t) acts))"
  using assms by (simp add: processorOf_indexes action_fold_get Map_get_Nil)

lemma auto_fold_get:
  "truthy t \<Longrightarrow>
   Map_get (foldl (\<lambda>idx a. if truthy (aa_taskId a) then Map_set idx (aa_taskId a) a else idx)
                  idx gs) t =
     (case filter (\<lambda>a. aa_taskId a = t) gs of [] \<Rightarrow> Map_get idx t | x # xs \<Rightarrow> Some (last (x # xs)))"
proof (induction gs arbitrary: idx)
  case Nil
  then show ?case by simp
next
  case (Cons a gs)
  then show ?case by (auto simp: Map_get_set split: list.splits)
qed

lemma auto_fold_distinct:
  "distinct (Map_keys idx) \<Longrightarrow>
   distinct (Map_keys (foldl (\<lambda>idx a. if truthy (aa_taskId a) then Map_set idx (aa_taskId a) a
                                       else idx) idx gs))"
  by (induction gs arbitrary: idx) (simp_all add: Map_keys_distinct_set)

lemma auto_fold_keys_truthy:
  "list_all truthy (Map_keys idx) \<Longrightarrow>
   list_all truthy (Map_keys (foldl (\<lambda>idx a. if truthy (aa_taskId a)
                                              then Map_set idx (aa_taskId a) a else idx) idx gs))"
proof (induction gs arbitrary: idx)
  case Nil
  then show ?case by simp
next
  case (Cons a gs)
  have "list_all truthy (Map_keys (Map_set idx (aa_taskId a) a))" if "truthy (aa_taskId a)"
    using that Cons.prems by (simp add: list_all_iff Map_keys_set)
  with Cons show ?case by simp
qed

lemma Map_keys_push: "set (Map_keys (Map_push m k v)) = insert k (set (Map_keys m))"
  by (cases "Map_get m k") (simp_all add: Map_push_def Map_keys_set Map_get_set Map_has_Map_get Let_def)

lemma history_fold_keys_truthy:
  "list_all truthy (Map_keys idx) \<Longrightarrow>
   list_all truthy (Map_keys (foldl (\<lambda>idx h. if truthy (th_taskId h)
                                              then Map_push idx (th_taskId h) h else idx) idx hs))"
proof (induction hs arbitrary: idx)
  case Nil
  then show ?case by simp
next
  case (Cons h hs)
  have "list_all truthy (Map_keys (Map_push idx (th_taskId h) h))" if "truthy (th_taskId h)"
    using that Cons.prems by (simp add: list_all_iff Map_keys_push)
  with Cons show ?case by simp
qed

lemma action_fold_keys_truthy:
  "list_all truthy (Map_keys idx) \<Longrightarrow>
   list_all truthy (Map_keys (foldl (\<lambda>idx a. case taskId a of None \<Rightarrow> idx
                        | Some t \<Rightarrow> if truthy t then Map_push idx t a else idx) idx acts))"
proof (induction acts arbitrary: idx)
  case Nil
  then show ?case by simp
next
  case (Cons a acts)
  have "list_all truthy (Map_keys (Map_push idx t a))" if "truthy t" for t
    using that Cons.prems by (simp add: list_all_iff Map_keys_push)
  with Cons show ?case by (cases "taskId a") simp_all
qed

lemma processor_keys_truthy:
  "list_all truthy (Map_keys (taskActionIndex (processorOf acts hs us gs os ss)))"
  "list_all truthy (Map_keys (taskHistoryIndex (processorOf acts hs us gs os ss)))"
  "list_all truthy (Map_keys (autoAssignmentIndex (processorOf acts hs us gs os ss)))"
  by (simp_all add: processorOf_indexes action_fold_keys_truthy history_fold_keys_truthy
      auto_fold_keys_truthy Map_keys_Nil)

section \<open>Elapsed minutes\<close>

subsection \<open>Rounding to a double\<close>

lemma toDouble_minus: "toDouble (- x) = - toDouble x"
  by (simp add: toDouble_def Let_def)

lemma absFloor_minus: "absFloor (- x) = - absFloor x"
proof (cases "x = 0")
  case True
  then show ?thesis by (simp add: absFloor_def)
next
  case False
  then show ?thesis by (auto simp: absFloor_def ceiling_def)
qed

lemma moment_diff_minutes_swap: "moment_diff_minutes e s = - moment_diff_minutes s e"
proof -
  have "(of_int e :: rat) - of_int s = - (of_int s - of_int e)" by simp
  then have "toDouble (of_int e - of_int s) / 60000 = - (toDouble (of_int s - of_int e) / 60000)"
    by (simp only: toDouble_minus minus_divide_left)
  then show ?thesis
    by (simp only: moment_diff_minutes_def toDouble_minus absFloor_minus)
qed

lemma ilog2_nonneg: "0 \<le> ilog2 n"
proof (induction n rule: ilog2.induct)
  case (1 n)
  then show ?case by (subst ilog2.simps) auto
qed

lemma ilog2_lower: "1 \<le> n \<Longrightarrow> 2 ^ nat (ilog2 n) \<le> n"
proof (induction n rule: ilog2.induct)
  case (1 n)
  show ?case
  proof (cases "n < 2")
    case True
    with "1.prems" show ?thesis by (subst ilog2.simps) simp
  next
    case False
    then have "1 \<le> n div 2" by simp
    with "1.IH" False have ih: "2 ^ nat (ilog2 (n div 2)) \<le> n div 2" by simp
    have "nat (1 + ilog2 (n div 2)) = Suc (nat (ilog2 (n div 2)))"
      using ilog2_nonneg [of "n div 2"] by simp
    then have "(2::int) ^ nat (1 + ilog2 (n div 2)) = 2 * 2 ^ nat (ilog2 (n div 2))" by simp
    also have "\<dots> \<le> 2 * (n div 2)" using ih by simp
    also have "\<dots> \<le> n" by simp
    finally show ?thesis using False by (subst ilog2.simps) simp
  qed
qed

lemma roundHalfEven_of_int: "roundHalfEven (of_int k) = k"
  by (simp add: roundHalfEven_def)

lemma roundHalfEven_bounds: "\<lfloor>m\<rfloor> \<le> roundHalfEven m" "of_int (roundHalfEven m) \<le> m + 1 / 2"
proof -
  show "\<lfloor>m\<rfloor> \<le> roundHalfEven m" by (simp add: roundHalfEven_def Let_def)
  have f: "of_int \<lfloor>m\<rfloor> \<le> m" by (rule of_int_floor_le)
  have a: "of_int (roundHalfEven m) \<le> m + 1 / 2" if "m - of_int \<lfloor>m\<rfloor> < 1 / 2"
  proof -
    from that have "roundHalfEven m = \<lfloor>m\<rfloor>" by (simp add: roundHalfEven_def Let_def)
    with f show ?thesis by linarith
  qed
  have b: "of_int (roundHalfEven m) \<le> m + 1 / 2" if "\<not> m - of_int \<lfloor>m\<rfloor> < 1 / 2"
  proof -
    have "roundHalfEven m \<le> \<lfloor>m\<rfloor> + 1" by (simp add: roundHalfEven_def Let_def)
    then have "(of_int (roundHalfEven m) :: rat) \<le> of_int (\<lfloor>m\<rfloor> + 1)" by (simp only: of_int_le_iff)
    then have "(of_int (roundHalfEven m) :: rat) \<le> of_int \<lfloor>m\<rfloor> + 1" by simp
    with that show ?thesis by linarith
  qed
  from a b show "of_int (roundHalfEven m) \<le> m + 1 / 2" by blast
qed

lemma pow2_neg: "e < 0 \<Longrightarrow> pow2 e = 1 / of_int (2 ^ nat (- e))"
  by (simp add: pow2_def)

lemma toDouble_of_int:
  assumes "\<bar>d\<bar> \<le> 2 ^ 53"
  shows "toDouble (of_int d) = of_int d"
proof -
  have pos: "toDouble (of_int n) = of_int n" if n: "0 < n" "n \<le> 2 ^ 53" for n :: int
  proof -
    define e where "e = ilog2 n"
    have e0: "0 \<le> e" unfolding e_def by (rule ilog2_nonneg)
    have lo: "2 ^ nat e \<le> n" unfolding e_def using n by (intro ilog2_lower) simp
    with n have "(2::int) ^ nat e \<le> 2 ^ 53" by linarith
    then have e53: "nat e \<le> 53"
      using power_le_imp_le_exp [of "2::int" "nat e" 53] by simp
    have ex: "exponent (of_int n) = e"
      using n by (simp add: exponent_def e_def)
    have unf: "toDouble (of_int n) =
                 of_int (roundHalfEven (of_int n / pow2 (e - 52))) * pow2 (e - 52)"
      using n by (simp add: toDouble_def Let_def ex)
    show ?thesis
    proof (cases "e \<le> 52")
      case True
      define K :: int where "K = 2 ^ nat (52 - e)"
      have K: "0 < K" by (simp add: K_def)
      have u: "pow2 (e - 52) = 1 / of_int K"
      proof (cases "e = 52")
        case True
        then show ?thesis by (simp add: pow2_def K_def)
      next
        case False
        with \<open>e \<le> 52\<close> have "e - 52 < 0" by simp
        then show ?thesis by (simp add: pow2_neg K_def)
      qed
      have "(of_int n :: rat) / pow2 (e - 52) = of_int (n * K)"
        by (simp add: u)
      then have "roundHalfEven (of_int n / pow2 (e - 52)) = n * K"
        by (simp only: roundHalfEven_of_int)
      then have "toDouble (of_int n) = of_int (n * K) * (1 / of_int K)"
        by (simp only: unf u)
      also have "\<dots> = of_int n" using K by simp
      finally show ?thesis .
    next
      case False
      with e53 e0 have e: "e = 53" by simp
      with lo n have n53: "n = 2 ^ 53" by simp
      have u: "pow2 (e - 52) = 2" by (simp add: e pow2_def)
      have "(of_int n :: rat) / 2 = of_int (2 ^ 52)" by (simp add: n53)
      then have "roundHalfEven (of_int n / pow2 (e - 52)) = 2 ^ 52"
        by (simp only: u roundHalfEven_of_int)
      then have "toDouble (of_int n) = of_int (2 ^ 52) * 2"
        by (simp only: unf u)
      also have "\<dots> = of_int n" by (simp add: n53)
      finally show ?thesis .
    qed
  qed
  consider "d = 0" | "0 < d" | "d < 0" by linarith
  then show ?thesis
  proof cases
    case 1
    then show ?thesis by (simp add: toDouble_def)
  next
    case 2
    with assms show ?thesis by (intro pos) simp_all
  next
    case 3
    with assms have "toDouble (of_int (- d)) = of_int (- d)" by (intro pos) simp_all
    then have "toDouble (- of_int d) = - of_int d" by simp
    then show ?thesis by (simp only: toDouble_minus neg_equal_iff_equal)
  qed
qed


lemma ilog2_upper: "1 \<le> n \<Longrightarrow> n < 2 ^ k \<Longrightarrow> ilog2 n < int k"
proof -
  assume n: "1 \<le> n" "n < 2 ^ k"
  from ilog2_lower [OF n(1)] n(2) have "(2::int) ^ nat (ilog2 n) < 2 ^ k" by linarith
  then have "nat (ilog2 n) < k" using power_less_imp_less_exp [of "2::int" "nat (ilog2 n)" k] by simp
  then show ?thesis using ilog2_nonneg [of n] by linarith
qed

lemma exponent_quotient:
  assumes "0 < n" and "n \<le> 2 ^ 53"
  shows "exponent (of_int n / 60000) \<le> 37"
proof (cases "(1::rat) \<le> of_int n / 60000")
  case True
  have fl: "\<lfloor>(of_int n :: rat) / 60000\<rfloor> = n div 60000"
    using floor_divide_of_int_eq [of n 60000, where ?'a = rat] by simp
  from True have "60000 \<le> n" by (simp add: le_divide_eq)
  then have q1: "1 \<le> n div 60000" by (simp add: pos_imp_zdiv_pos_iff)
  have "n div 60000 \<le> 2 ^ 53 div 60000" using assms(2) by (rule zdiv_mono1) simp
  also have "\<dots> < (2::int) ^ 38" by simp
  finally have "ilog2 (n div 60000) < int 38" using q1 by (intro ilog2_upper)
  with True fl show ?thesis by (simp add: exponent_def)
next
  case False
  have "0 \<le> ilog2 \<lfloor>1 / ((of_int n :: rat) / 60000)\<rfloor>" by (rule ilog2_nonneg)
  with False show ?thesis by (auto simp: exponent_def Let_def)
qed

lemma floor_toDouble_quotient:
  assumes "0 \<le> n" and "n \<le> 2 ^ 53"
  shows "absFloor (toDouble (of_int n / 60000)) = n div 60000"
proof (cases "n = 0")
  case True
  then show ?thesis by (simp add: toDouble_def absFloor_def)
next
  case False
  with assms have n: "0 < n" by simp
  define y :: rat where "y = of_int n / 60000"
  define q where "q = n div 60000"
  define e where "e = exponent y"
  define K :: int where "K = 2 ^ nat (52 - e)"
  define m' where "m' = roundHalfEven (y * of_int K)"
  have y: "0 < y" using n by (simp add: y_def)
  have e: "e \<le> 37" unfolding e_def y_def using n assms(2) by (rule exponent_quotient)
  then have "e - 52 < 0" by simp
  then have u: "pow2 (e - 52) = 1 / of_int K" by (simp add: pow2_neg K_def)
  have K: "0 < K" by (simp add: K_def)
  have "(2::int) ^ 15 \<le> 2 ^ nat (52 - e)" using e by (intro power_increasing) simp_all
  then have K15: "32768 \<le> K" by (simp add: K_def)
  have fl: "toDouble y = of_int m' / of_int K"
    using y by (simp add: toDouble_def Let_def e_def [symmetric] u m'_def)
  have qy: "of_int q \<le> y"
  proof -
    have "q = \<lfloor>y\<rfloor>"
      using floor_divide_of_int_eq [of n 60000, where ?'a = rat] by (simp add: q_def y_def)
    then show ?thesis using of_int_floor_le [of y] by simp
  qed
  have yq: "y \<le> of_int q + 59999 / 60000"
  proof -
    have "n = q * 60000 + n mod 60000" by (simp add: q_def)
    moreover have "n mod 60000 \<le> 59999" using pos_mod_bound [of 60000 n] by simp
    ultimately have "n \<le> q * 60000 + 59999" by linarith
    then have "(of_int n :: rat) \<le> of_int (q * 60000 + 59999)" by (simp only: of_int_le_iff)
    then show ?thesis by (simp add: y_def divide_le_eq)
  qed
  have lower: "of_int q \<le> toDouble y"
  proof -
    have "(of_int (q * K) :: rat) \<le> y * of_int K" using qy K by simp
    then have "q * K \<le> \<lfloor>y * of_int K\<rfloor>" by (simp add: le_floor_iff)
    also have "\<dots> \<le> m'" unfolding m'_def by (rule roundHalfEven_bounds(1))
    finally have "(of_int (q * K) :: rat) \<le> of_int m'" by (simp only: of_int_le_iff)
    then show ?thesis using K by (simp add: fl le_divide_eq)
  qed
  have upper: "toDouble y < of_int q + 1"
  proof -
    have "of_int m' \<le> y * of_int K + 1 / 2" unfolding m'_def by (rule roundHalfEven_bounds(2))
    then have "toDouble y \<le> y + 1 / (2 * of_int K)"
      using K by (simp add: fl divide_le_eq distrib_right)
    moreover have "1 / (2 * (of_int K :: rat)) \<le> 1 / 65536"
    proof -
      have "(32768 :: rat) \<le> of_int K" using K15 by (metis of_int_le_iff of_int_numeral)
      then have "(65536 :: rat) \<le> 2 * of_int K" by simp
      then show ?thesis by (intro divide_left_mono) simp_all
    qed
    ultimately show ?thesis using yq by linarith
  qed
  from lower upper have "\<lfloor>toDouble y\<rfloor> = q" by (simp add: floor_unique)
  moreover from lower have "0 \<le> toDouble y"
  proof -
    have "0 \<le> q" using assms(1) by (simp add: q_def pos_imp_zdiv_nonneg_iff)
    then have "(0 :: rat) \<le> of_int q" by simp
    with lower show ?thesis by linarith
  qed
  ultimately show ?thesis by (simp add: absFloor_def y_def q_def)
qed

lemma moment_diff_minutes_exact:
  assumes "\<bar>e - s\<bar> \<le> 2 ^ 53"
  shows "\<bar>moment_diff_minutes e s\<bar> = \<bar>e - s\<bar> div 60000"
proof -
  have pos: "\<bar>moment_diff_minutes b a\<bar> = (b - a) div 60000" if "0 \<le> b - a" "b - a \<le> 2 ^ 53" for a b
  proof -
    have "toDouble (of_int b - of_int a) = of_int (b - a)"
      using toDouble_of_int [of "b - a"] that by simp
    then have "moment_diff_minutes b a = (b - a) div 60000"
      using floor_toDouble_quotient [OF that] by (simp add: moment_diff_minutes_def)
    moreover have "0 \<le> (b - a) div 60000" using that(1) by (simp add: pos_imp_zdiv_nonneg_iff)
    ultimately show ?thesis by simp
  qed
  show ?thesis
  proof (cases "0 \<le> e - s")
    case True
    with assms have "0 \<le> e - s" "e - s \<le> 2 ^ 53" by simp_all
    from pos [OF this] have "\<bar>moment_diff_minutes e s\<bar> = (e - s) div 60000" .
    moreover from True have "\<bar>e - s\<bar> = e - s" by simp
    ultimately show ?thesis by simp
  next
    case False
    with assms have "0 \<le> s - e" "s - e \<le> 2 ^ 53" by simp_all
    from pos [OF this] have "\<bar>moment_diff_minutes s e\<bar> = (s - e) div 60000" .
    moreover have "\<bar>moment_diff_minutes e s\<bar> = \<bar>moment_diff_minutes s e\<bar>"
      by (subst moment_diff_minutes_swap) simp
    moreover from False have "\<bar>e - s\<bar> = s - e" by simp
    ultimately show ?thesis by simp
  qed
qed

subsection \<open>The difference in minutes\<close>

text \<open>
  Claim C8. For two valid instants, \<^verbatim>\<open>calculateTimeDifferenceMinutes\<close> gives the same
  result in both orders, and the result is a whole number that is not negative; the
  result is null as soon as one argument is null or an invalid date. Where the two
  instants are at most \<open>2 ^ 53\<close> milliseconds apart (every pair of dates within 142 000
  years of each other) no rounding takes place and the result is the whole number of
  minutes in the absolute difference. Beyond that the difference of the two time values
  is rounded to a double before it is divided, and the result may be one minute off.
\<close>

theorem elapsedMinutes_symmetric:
  "calculateTimeDifferenceMinutes (Some (Date a)) (Some (Date b))
     = calculateTimeDifferenceMinutes (Some (Date b)) (Some (Date a))
   \<and> (\<exists>n. calculateTimeDifferenceMinutes (Some (Date a)) (Some (Date b)) = Some n \<and> 0 \<le> n)
   \<and> (\<bar>b - a\<bar> \<le> 2 ^ 53 \<longrightarrow>
        calculateTimeDifferenceMinutes (Some (Date a)) (Some (Date b)) = Some (\<bar>b - a\<bar> div 60000))
   \<and> calculateTimeDifferenceMinutes None y = None
   \<and> calculateTimeDifferenceMinutes x None = None
   \<and> calculateTimeDifferenceMinutes (Some InvalidDate) y = None
   \<and> calculateTimeDifferenceMinutes x (Some InvalidDate) = None"
proof -
  have v: "calculateTimeDifferenceMinutes (Some (Date s)) (Some (Date e))
             = Some \<bar>moment_diff_minutes e s\<bar>" for s e
    by (simp add: calculateTimeDifferenceMinutes_def)
  have s: "\<bar>moment_diff_minutes b a\<bar> = \<bar>moment_diff_minutes a b\<bar>"
    by (subst moment_diff_minutes_swap) simp
  have e: "\<bar>moment_diff_minutes b a\<bar> = \<bar>b - a\<bar> div 60000" if "\<bar>b - a\<bar> \<le> 2 ^ 53"
    using that by (rule moment_diff_minutes_exact)
  have n: "calculateTimeDifferenceMinutes None y = None"
    "calculateTimeDifferenceMinutes x None = None"
    "calculateTimeDifferenceMinutes (Some InvalidDate) y = None"
    "calculateTimeDifferenceMinutes x (Some InvalidDate) = None"
    by (simp_all add: calculateTimeDifferenceMinutes_def split: option.splits jsdate.splits)
  from s e n show ?thesis unfolding v by simp
qed

text \<open>
  Two instants 90 minutes and 59 seconds apart give 90 in both orders. The first and
  the last but one instant a \<^verbatim>\<open>Date\<close> can hold are 17279999999999999 milliseconds
  apart, which is 287999999999 whole minutes; the difference is rounded to the double
  17280000000000000, and the result is 288000000000.
\<close>

lemma elapsedMinutes_far_apart:
  "calculateTimeDifferenceMinutes (Some (Date (- 8640000000000000))) (Some (Date 8639999999999999))
     = Some 288000000000"
  "\<bar>8639999999999999 - (- 8640000000000000 :: int)\<bar> div 60000 = 287999999999"
  by code_simp+

theorem elapsedMinutes_symmetric_witness:
  "\<bar>1756114319000 - (1756108860000 :: int)\<bar> \<le> 2 ^ 53
   \<and> calculateTimeDifferenceMinutes (Some (Date 1756108860000)) (Some (Date 1756114319000)) = Some 90
   \<and> calculateTimeDifferenceMinutes (Some (Date 1756114319000)) (Some (Date 1756108860000)) = Some 90
   \<and> calculateTimeDifferenceMinutes (Some (Date (- 8640000000000000))) (Some (Date 8639999999999999))
       = calculateTimeDifferenceMinutes (Some (Date 8639999999999999)) (Some (Date (- 8640000000000000)))
   \<and> calculateTimeDifferenceMinutes (Some (Date (- 8640000000000000))) (Some (Date 8639999999999999))
       = Some 288000000000
   \<and> calculateTimeDifferenceMinutes None (Some (Date 0)) = None
   \<and> calculateTimeDifferenceMinutes (Some InvalidDate) (Some (Date 0)) = None"
proof -
  note near = elapsedMinutes_symmetric [of 1756108860000 1756114319000 "Some (Date 0)" None]
  note far = elapsedMinutes_symmetric [of "- 8640000000000000" 8639999999999999]
  have le: "\<bar>1756114319000 - (1756108860000 :: int)\<bar> \<le> 2 ^ 53" by simp
  from near [THEN conjunct2, THEN conjunct2, THEN conjunct1] le
  have v: "calculateTimeDifferenceMinutes (Some (Date 1756108860000)) (Some (Date 1756114319000))
             = Some 90"
    by simp
  from near [THEN conjunct1] v
  have w: "calculateTimeDifferenceMinutes (Some (Date 1756114319000)) (Some (Date 1756108860000))
             = Some 90"
    by simp
  note n = near [THEN conjunct2, THEN conjunct2, THEN conjunct2]
  show ?thesis
    using le v w far [THEN conjunct1] elapsedMinutes_far_apart(1) n [THEN conjunct1]
      n [THEN conjunct2, THEN conjunct2, THEN conjunct1]
    by (intro conjI)
qed

section \<open>Mode\<close>

text \<open>
  Claim C3. The mode of a task id is Auto when the id is a key of the AutoAssignment
  index, else Manual when it is a key of the TaskActions index, else Unknown; so an id in
  both indexes is Auto. (The type \<open>mode\<close> has these three values and no other.)
\<close>

theorem determineMode_priority:
  "determineMode tp t =
     (if t \<in> set (Map_keys (autoAssignmentIndex tp)) then Auto
      else if t \<in> set (Map_keys (taskActionIndex tp)) then Manual
      else Unknown)"
  by (simp add: determineMode_def Map_has_keys)

lemma example_keys:
  "Map_keys (taskActionIndex exampleProcessor) = [''TASK-1'', ''TASK-3'', ''TASK-5'']"
  "Map_keys (taskHistoryIndex exampleProcessor) = [''TASK-3'', ''TASK-1'', ''TASK-5'', ''TASK-4'']"
  "Map_keys (autoAssignmentIndex exampleProcessor) = [''TASK-2'', ''TASK-5'']"
  "Map_keys (openTimeIndex exampleProcessor) = [''TASK-9'', ''TASK-3'']"
  by code_simp+

theorem determineMode_priority_witness:
  "''TASK-5'' \<in> set (Map_keys (autoAssignmentIndex exampleProcessor))
   \<and> ''TASK-5'' \<in> set (Map_keys (taskActionIndex exampleProcessor))
   \<and> determineMode exampleProcessor ''TASK-5'' = Auto
   \<and> determineMode exampleProcessor ''TASK-1'' = Manual
   \<and> determineMode exampleProcessor ''TASK-9'' = Unknown"
  using determineMode_priority [of exampleProcessor "''TASK-5''"]
    determineMode_priority [of exampleProcessor "''TASK-1''"]
    determineMode_priority [of exampleProcessor "''TASK-9''"]
  by (simp add: example_keys)

section \<open>Phase timestamps\<close>

text \<open>
  Claim C4. For a processor whose indexes were built from the source collections, the
  created time of a task id is the \<^verbatim>\<open>actionTimestamp\<close> of the first entry of the
  TaskHistory source list, in the order of that list, that carries this task id, MC
  status PMA and action IN; it is null when the list has no such entry. Timestamps play
  no part in the choice.
\<close>

theorem getCreatedTime_first_in_source_order:
  assumes "truthy t"
  shows "getCreatedTime (processorOf acts hs us gs os ss) t =
           (case find (\<lambda>h. mcStatus h = ''PMA'' \<and> action h = ''IN'')
                      (filter (\<lambda>h. th_taskId h = t) hs) of
              None \<Rightarrow> None
            | Some h \<Rightarrow> actionTimestamp h)"
  using assms by (simp add: getCreatedTime_def history_index_of_sources)

text \<open>
  In the example the first PMA/IN entry of TASK-3 is stamped 08:10 and a later one 08:00:
  the created time is 08:10. TASK-1 has no PMA/IN entry.
\<close>

theorem getCreatedTime_first_in_source_order_witness:
  "truthy ''TASK-3'' \<and> truthy ''TASK-1''
   \<and> getCreatedTime exampleProcessor ''TASK-3'' = Some (Date 1756109400000)
   \<and> getCreatedTime exampleProcessor ''TASK-1'' = None"
  using getCreatedTime_first_in_source_order [of "''TASK-3''" exampleActions exampleHistories
      exampleUsers exampleAutos exampleOpens exampleScreenOpens]
    getCreatedTime_first_in_source_order [of "''TASK-1''" exampleActions exampleHistories
      exampleUsers exampleAutos exampleOpens exampleScreenOpens]
  by (simp add: exampleProcessor_def truthy_def exampleHistories_def mkHistory_def)

text \<open>
  Claim C5. The assigned time of a task id follows its mode. In mode Auto the task has a
  record in the AutoAssignment index and the assigned time is the timestamp of that
  record. In mode Manual or Unknown it is the \<^verbatim>\<open>actionTimestamp\<close> of the first entry of
  the TaskHistory source list, in the order of that list, with this task id, MC status
  PME and action AS, and null when there is no such entry.
\<close>

theorem getAssignedTime_by_mode:
  assumes "truthy t"
  shows "(determineMode (processorOf acts hs us gs os ss) t = Auto \<longrightarrow>
            (\<exists>a. Map_get (autoAssignmentIndex (processorOf acts hs us gs os ss)) t = Some a
                 \<and> getAssignedTime (processorOf acts hs us gs os ss) t = timestamp a))
         \<and> (determineMode (processorOf acts hs us gs os ss) t \<noteq> Auto \<longrightarrow>
              getAssignedTime (processorOf acts hs us gs os ss) t =
                (case find (\<lambda>h. mcStatus h = ''PME'' \<and> action h = ''AS'')
                           (filter (\<lambda>h. th_taskId h = t) hs) of
                   None \<Rightarrow> None
                 | Some h \<Rightarrow> actionTimestamp h))"
proof -
  let ?P = "processorOf acts hs us gs os ss"
  have auto: "\<exists>a. Map_get (autoAssignmentIndex ?P) t = Some a \<and> getAssignedTime ?P t = timestamp a"
    if "determineMode ?P t = Auto"
  proof -
    from that have "Map_has (autoAssignmentIndex ?P) t"
      by (simp add: determineMode_def split: if_splits)
    then obtain a where "Map_get (autoAssignmentIndex ?P) t = Some a"
      by (auto simp: Map_has_Map_get)
    with that show ?thesis by (simp add: getAssignedTime_def getAutoAssignedTime_def)
  qed
  have manual: "getAssignedTime ?P t =
      (case find (\<lambda>h. mcStatus h = ''PME'' \<and> action h = ''AS'') (filter (\<lambda>h. th_taskId h = t) hs) of
         None \<Rightarrow> None | Some h \<Rightarrow> actionTimestamp h)"
    if "determineMode ?P t \<noteq> Auto"
    using that assms
    by (simp add: getAssignedTime_def getManualAssignedTime_def history_index_of_sources)
  from auto manual show ?thesis by blast
qed

text \<open>
  In the example TASK-5 is in mode Auto: its assigned time is the 08:30 of its
  auto-assignment, not the 10:00:30 of its PME/AS history entry. TASK-3 is in mode
  Manual, TASK-4 in mode Unknown.
\<close>

theorem getAssignedTime_by_mode_witness:
  "truthy ''TASK-5'' \<and> determineMode exampleProcessor ''TASK-5'' = Auto
   \<and> getAssignedTime exampleProcessor ''TASK-5'' = Some (Date 1756110600000)
   \<and> determineMode exampleProcessor ''TASK-3'' = Manual
   \<and> getAssignedTime exampleProcessor ''TASK-3'' = Some (Date 1756110600000)
   \<and> determineMode exampleProcessor ''TASK-4'' = Unknown
   \<and> getAssignedTime exampleProcessor ''TASK-4'' = None"
proof -
  have m: "determineMode exampleProcessor ''TASK-5'' = Auto"
    "determineMode exampleProcessor ''TASK-3'' = Manual"
    "determineMode exampleProcessor ''TASK-4'' = Unknown"
    by (simp_all add: determineMode_def Map_has_keys example_keys)
  have g: "Map_get (autoAssignmentIndex exampleProcessor) ''TASK-5''
             = Some (mkAuto ''TASK-5'' (Some ''b@x.com'') (Some (Date 1756110600000)))"
    by code_simp
  have f3: "(case find (\<lambda>h. mcStatus h = ''PME'' \<and> action h = ''AS'')
                        (filter (\<lambda>h. th_taskId h = ''TASK-3'') exampleHistories) of
               None \<Rightarrow> None | Some h \<Rightarrow> actionTimestamp h) = Some (Date 1756110600000)"
    by code_simp
  have f4: "(case find (\<lambda>h. mcStatus h = ''PME'' \<and> action h = ''AS'')
                        (filter (\<lambda>h. th_taskId h = ''TASK-4'') exampleHistories) of
               None \<Rightarrow> None | Some h \<Rightarrow> actionTimestamp h) = None"
    by code_simp
  show ?thesis
    using getAssignedTime_by_mode [of "''TASK-5''" exampleActions exampleHistories
        exampleUsers exampleAutos exampleOpens exampleScreenOpens, folded exampleProcessor_def]
      getAssignedTime_by_mode [of "''TASK-3''" exampleActions exampleHistories
        exampleUsers exampleAutos exampleOpens exampleScreenOpens, folded exampleProcessor_def]
      getAssignedTime_by_mode [of "''TASK-4''" exampleActions exampleHistories
        exampleUsers exampleAutos exampleOpens exampleScreenOpens, folded exampleProcessor_def]
    by (simp add: m g f3 f4 truthy_def mkAuto_def)
qed

section \<open>The two passes of the main report\<close>

lemma set_allTaskIds:
  "set (allTaskIds tp) =
     set (Map_keys (taskActionIndex tp)) \<union> set (Map_keys (taskHistoryIndex tp))
     \<union> set (Map_keys (autoAssignmentIndex tp))"
  by (simp add: allTaskIds_def set_foldl_Set_add)

lemma distinct_allTaskIds: "distinct (allTaskIds tp)"
  by (simp add: allTaskIds_def distinct_foldl_Set_add)

lemma bindE_Inr: "bindE r f = Inr y \<longleftrightarrow> (\<exists>x. r = Inr x \<and> f x = Inr y)"
  by (cases r) (simp_all add: bindE_def)

lemma draftRecord_fields:
  assumes "draftRecord tp t = Inr r"
  shows "task r = t" and "mode r = determineMode tp t"
    and "\<exists>user. resolveUser tp t = Some user \<and> (userName r, userEmail r) = splitUser user"
    and "isoOrEmpty (getCreatedTime tp t) = Inr (createdTime r)"
    and "isoOrEmpty (getAssignedTime tp t) = Inr (assignedTime r)"
    and "isoOrEmpty (getMakerCompleteTime tp t) = Inr (makerCompleteTime r)"
    and "isoOrEmpty (getOpenTime tp t) = Inr (openTime r)"
  using assms
  by (auto simp: draftRecord_def Let_def bindE_Inr userComponents_def
      split: prod.splits option.splits)

lemma draftPass_tasks: "draftPass tp ts = Inr recs \<Longrightarrow> map task recs = ts"
proof (induction ts arbitrary: recs)
  case Nil
  then show ?case by simp
next
  case (Cons t ts)
  from Cons.prems obtain r0 rs where r0: "draftRecord tp t = Inr r0"
    and rs: "draftPass tp ts = Inr rs" and recs: "recs = r0 # rs"
    by (auto simp: bindE_Inr)
  with Cons.IH [OF rs] draftRecord_fields(1) [OF r0] show ?case by simp
qed

lemma draftPass_Cons:
  "draftPass tp (t # ts) = Inr recs \<longleftrightarrow>
     (\<exists>r rs. draftRecord tp t = Inr r \<and> draftPass tp ts = Inr rs \<and> recs = r # rs)"
  by (auto simp: bindE_Inr)

lemma draftPass_records:
  "draftPass tp ts = Inr recs \<Longrightarrow> r \<in> set recs \<Longrightarrow> draftRecord tp (task r) = Inr r"
proof (induction ts arbitrary: recs)
  case Nil
  then show ?case by simp
next
  case (Cons t ts)
  from Cons.prems(1) obtain r0 rs where r0: "draftRecord tp t = Inr r0"
    and rs: "draftPass tp ts = Inr rs" and recs: "recs = r0 # rs"
    unfolding draftPass_Cons by blast
  from Cons.prems(2) recs consider "r = r0" | "r \<in> set rs" by auto
  then show ?case
  proof cases
    case 1
    with r0 draftRecord_fields(1) [OF r0] show ?thesis by simp
  next
    case 2
    with rs show ?thesis by (rule Cons.IH)
  qed
qed

text \<open>
  \<^verbatim>\<open>calculateProductiveTime\<close> reads the task id and two text fields of the records, so
  the records updated earlier in the second loop do not change what it finds.
\<close>

lemma calculateProductiveTime_cong:
  "map (\<lambda>r. (task r, assignedTime r, makerCompleteTime r)) xs
     = map (\<lambda>r. (task r, assignedTime r, makerCompleteTime r)) ys
   \<Longrightarrow> calculateProductiveTime h xs t = calculateProductiveTime h ys t"
proof (induction xs arbitrary: ys)
  case Nil
  then show ?case by simp
next
  case (Cons x xs)
  then obtain y ys' where ys: "ys = y # ys'" by (cases ys) auto
  with Cons.prems have hd: "task x = task y" "assignedTime x = assignedTime y"
    "makerCompleteTime x = makerCompleteTime y"
    and tl: "map (\<lambda>r. (task r, assignedTime r, makerCompleteTime r)) xs
             = map (\<lambda>r. (task r, assignedTime r, makerCompleteTime r)) ys'"
    by auto
  from Cons.IH [OF tl] show ?case
    by (simp add: ys hd calculateProductiveTime_def findRecordByTaskId_def)
qed

lemma deriveRecord_cong:
  "(\<And>t. calculateProductiveTime h xs t = calculateProductiveTime h ys t)
   \<Longrightarrow> deriveRecord h tp xs = deriveRecord h tp ys"
  by (rule ext) (simp add: deriveRecord_def)

lemma derivePass_eq:
  "derivePass h tp done todo = done @ map (deriveRecord h tp (done @ todo)) todo"
proof (induction todo arbitrary: "done")
  case Nil
  then show ?case by simp
next
  case (Cons r todo)
  let ?r' = "deriveRecord h tp (done @ r # todo) r"
  have c: "calculateProductiveTime h (done @ ?r' # todo) t
             = calculateProductiveTime h (done @ r # todo) t" for t
    by (rule calculateProductiveTime_cong) (simp add: deriveRecord_def)
  have e: "deriveRecord h tp (done @ ?r' # todo) = deriveRecord h tp (done @ r # todo)"
    by (rule deriveRecord_cong) (rule c)
  have "derivePass h tp done (r # todo) = derivePass h tp (done @ [?r']) todo"
    by simp
  also have "\<dots> = (done @ [?r']) @ map (deriveRecord h tp ((done @ [?r']) @ todo)) todo"
    by (rule Cons.IH)
  finally show ?case by (simp add: e)
qed

lemma generateReport_Inr:
  "generateReport h tp = Inr recs \<longleftrightarrow>
     (\<exists>drafts. draftPass tp (allTaskIds tp) = Inr drafts
        \<and> recs = map (deriveRecord h tp drafts) drafts)"
  by (auto simp: generateReport_def bindE_Inr derivePass_eq)

lemma find_distinct_key:
  "distinct (map f xs) \<Longrightarrow> x \<in> set xs \<Longrightarrow> find (\<lambda>y. f y = f x) xs = Some x"
  by (induction xs) (auto simp: rev_image_eqI)

subsection \<open>The report is produced when no index holds an invalid date or an undefined login\<close>

lemma find_in_set: "find P xs = Some x \<Longrightarrow> x \<in> set xs"
  by (auto simp: find_Some_iff)

lemma toISOString_Date: "\<exists>s. toISOString (Date t) = Inr s"
  by (cases "civil_from_days (t div 86400000)") (simp add: toISOString_def Let_def)

lemma isoOrEmpty_valid: "validStamp d \<Longrightarrow> \<exists>s. isoOrEmpty d = Inr s"
proof (cases d)
  case None
  then show ?thesis by (simp add: isoOrEmpty_def)
next
  case (Some x)
  assume "validStamp d"
  with Some obtain t where "x = Date t" by (cases x) (auto simp: validStamp_def)
  with Some show ?thesis using toISOString_Date [of t] by (simp add: isoOrEmpty_def)
qed

lemma history_stamp_valid:
  assumes "datesValid tp" and "Map_get (taskHistoryIndex tp) t = Some hs" and "h \<in> set hs"
  shows "validStamp (actionTimestamp h)"
proof -
  from assms(2) have "(t, hs) \<in> set (taskHistoryIndex tp)" by (rule Map_get_SomeD)
  with assms(1) have "list_all (\<lambda>h. validStamp (actionTimestamp h)) hs"
    by (auto simp: datesValid_def list_all_iff)
  with assms(3) show ?thesis by (simp add: list_all_iff)
qed

lemma first_stamp_valid:
  assumes "datesValid tp"
  shows "validStamp (case Map_get (taskHistoryIndex tp) t of
                       None \<Rightarrow> None
                     | Some hs \<Rightarrow> (case find P hs of None \<Rightarrow> None | Some h \<Rightarrow> actionTimestamp h))"
proof (cases "Map_get (taskHistoryIndex tp) t")
  case None
  then show ?thesis by (simp add: validStamp_def)
next
  case (Some hs)
  show ?thesis
  proof (cases "find P hs")
    case None
    with Some show ?thesis by (simp add: validStamp_def)
  next
    case (Some h)
    then have "h \<in> set hs" by (rule find_in_set)
    with assms \<open>Map_get (taskHistoryIndex tp) t = Some hs\<close>
    have "validStamp (actionTimestamp h)" by (rule history_stamp_valid)
    with Some \<open>Map_get (taskHistoryIndex tp) t = Some hs\<close> show ?thesis by simp
  qed
qed

lemma phase_stamps_valid:
  assumes "datesValid tp"
  shows "validStamp (getCreatedTime tp t)" and "validStamp (getManualAssignedTime tp t)"
    and "validStamp (getMakerCompleteTime tp t)" and "validStamp (getAutoAssignedTime tp t)"
    and "validStamp (getOpenTime tp t)"
proof -
  show "validStamp (getCreatedTime tp t)"
    unfolding getCreatedTime_def using assms by (rule first_stamp_valid)
  show "validStamp (getManualAssignedTime tp t)"
    unfolding getManualAssignedTime_def using assms by (rule first_stamp_valid)
  show "validStamp (getMakerCompleteTime tp t)"
    unfolding getMakerCompleteTime_def using assms by (rule first_stamp_valid)
  show "validStamp (getAutoAssignedTime tp t)"
  proof (cases "Map_get (autoAssignmentIndex tp) t")
    case None
    then show ?thesis by (simp add: getAutoAssignedTime_def validStamp_def)
  next
    case (Some a)
    then have "(t, a) \<in> set (autoAssignmentIndex tp)" by (rule Map_get_SomeD)
    with assms have "validStamp (timestamp a)"
      by (auto simp: datesValid_def list_all_iff)
    with Some show ?thesis by (simp add: getAutoAssignedTime_def)
  qed
  show "validStamp (getOpenTime tp t)"
  proof (cases "Map_get (openTimeIndex tp) t")
    case None
    then show ?thesis by (simp add: getOpenTime_def validStamp_def)
  next
    case (Some v)
    then have "(t, v) \<in> set (openTimeIndex tp)" by (rule Map_get_SomeD)
    with assms have "validStamp v"
      by (auto simp: datesValid_def list_all_iff)
    with Some show ?thesis by (simp add: getOpenTime_def)
  qed
qed

lemma getUserDisplayName_Some: "\<exists>user. getUserDisplayName tp (Some e) = Some user"
  by (simp add: getUserDisplayName_def split: option.splits)

lemma resolveUser_defined:
  assumes "loginsDefined tp"
  shows "\<exists>user. resolveUser tp t = Some user"
proof (cases "Map_get (taskActionIndex tp) t")
  case None
  then show ?thesis
    using getUserDisplayName_Some [of tp]
    by (simp add: resolveUser_def split: option.splits)
next
  case (Some acts)
  show ?thesis
  proof (cases acts)
    case Nil
    with Some show ?thesis
      using getUserDisplayName_Some [of tp]
      by (simp add: resolveUser_def split: option.splits)
  next
    case (Cons a as)
    from Some have "(t, acts) \<in> set (taskActionIndex tp)" by (rule Map_get_SomeD)
    with assms have "case snd (t, acts) of [] \<Rightarrow> True | a # as \<Rightarrow> loginEmail a \<noteq> None"
      unfolding loginsDefined_def list_all_iff by (rule bspec)
    with Cons obtain e where "loginEmail a = Some e" by auto
    with Some Cons getUserDisplayName_Some [of tp e] show ?thesis
      by (simp add: resolveUser_def)
  qed
qed

lemma draftRecord_returns:
  assumes "datesValid tp" and l: "loginsDefined tp"
  shows "\<exists>r. draftRecord tp t = Inr r"
proof -
  from resolveUser_defined [OF l] obtain user where u: "resolveUser tp t = Some user" by blast
  note assms = assms(1)
  have a: "validStamp (getAssignedTime tp t)"
    using phase_stamps_valid [OF assms] by (simp add: getAssignedTime_def)
  from isoOrEmpty_valid [OF phase_stamps_valid(1) [OF assms]]
  obtain c where c: "isoOrEmpty (getCreatedTime tp t) = Inr c" by blast
  from isoOrEmpty_valid [OF a]
  obtain s where s: "isoOrEmpty (getAssignedTime tp t) = Inr s" by blast
  from isoOrEmpty_valid [OF phase_stamps_valid(3) [OF assms]]
  obtain m where m: "isoOrEmpty (getMakerCompleteTime tp t) = Inr m" by blast
  from isoOrEmpty_valid [OF phase_stamps_valid(5) [OF assms]]
  obtain opn where opn: "isoOrEmpty (getOpenTime tp t) = Inr opn" by blast
  show ?thesis
    by (simp add: draftRecord_def Let_def u userComponents_def c s m opn bindE_def
        split: prod.splits)
qed

lemma draftPass_returns:
  assumes "datesValid tp" and "loginsDefined tp"
  shows "\<exists>recs. draftPass tp ts = Inr recs"
proof (induction ts)
  case Nil
  then show ?case by simp
next
  case (Cons t ts)
  from draftRecord_returns [OF assms] obtain r where "draftRecord tp t = Inr r" by blast
  with Cons show ?case by (auto simp: bindE_def)
qed

lemma generateReport_returns:
  assumes "datesValid tp" and "loginsDefined tp"
  shows "\<exists>recs. generateReport h tp = Inr recs"
  using draftPass_returns [OF assms, of "allTaskIds tp"]
  by (auto simp: generateReport_def bindE_def)

lemma exampleReport_eq: "generateReport (exampleHost 0) exampleProcessor = Inr exampleReport"
  by code_simp

lemma example_datesValid: "datesValid exampleProcessor"
  by code_simp

lemma example_loginsDefined: "loginsDefined exampleProcessor"
  by code_simp

text \<open>
  A TaskActions row without a login email, and no display name for \<^verbatim>\<open>undefined\<close> in
  the Users index: the user of its task is \<^verbatim>\<open>undefined\<close> and the report is not returned.
\<close>

lemma noLogin_report:
  "datesValid noLoginProcessor"
  "resolveUser noLoginProcessor ''TASK-1'' = None"
  "generateReport (exampleHost 0) noLoginProcessor = Inl TypeError"
  by code_simp+

subsection \<open>One record per task id\<close>

text \<open>
  Claim C7. When \<^verbatim>\<open>generateReport\<close> returns, the task ids of its records are pairwise
  different and are exactly the keys of the TaskActions, TaskHistory and AutoAssignment
  indexes; so a task id that is a key of none of these three (whatever the OpenTime and
  ScreenOpen indexes hold) has no record. It does return when no index holds an invalid
  date and the first TaskActions entry of every task has a login email. (An invalid date
  makes \<^verbatim>\<open>toISOString\<close> throw a RangeError; a first entry without a login email, when the
  Users index has no display name for \<^verbatim>\<open>undefined\<close>, makes \<^verbatim>\<open>user.match\<close> throw a
  TypeError: no report is returned then.)
\<close>

theorem report_one_record_per_task:
  "(\<forall>recs. generateReport h tp = Inr recs \<longrightarrow>
      distinct (map task recs)
      \<and> set (map task recs) =
          set (Map_keys (taskActionIndex tp)) \<union> set (Map_keys (taskHistoryIndex tp))
          \<union> set (Map_keys (autoAssignmentIndex tp)))
   \<and> (datesValid tp \<and> loginsDefined tp \<longrightarrow> (\<exists>recs. generateReport h tp = Inr recs))"
proof -
  have "distinct (map task recs)
        \<and> set (map task recs) =
            set (Map_keys (taskActionIndex tp)) \<union> set (Map_keys (taskHistoryIndex tp))
            \<union> set (Map_keys (autoAssignmentIndex tp))"
    if "generateReport h tp = Inr recs" for recs
  proof -
    from that obtain drafts where d: "draftPass tp (allTaskIds tp) = Inr drafts"
      and r: "recs = map (deriveRecord h tp drafts) drafts"
      by (auto simp: generateReport_Inr)
    have "map task recs = map task drafts" by (simp add: r deriveRecord_def)
    also have "\<dots> = allTaskIds tp" using d by (rule draftPass_tasks)
    finally have "map task recs = allTaskIds tp" .
    then show ?thesis by (simp add: distinct_allTaskIds set_allTaskIds)
  qed
  with generateReport_returns show ?thesis by blast
qed

text \<open>
  In the example TASK-9 is a key of the OpenTime index only, and the report has no
  record for it. The processor whose only TaskActions row has no login email returns no
  report.
\<close>

theorem report_one_record_per_task_witness:
  "datesValid exampleProcessor \<and> loginsDefined exampleProcessor
   \<and> generateReport (exampleHost 0) noLoginProcessor = Inl TypeError
   \<and> generateReport (exampleHost 0) exampleProcessor = Inr exampleReport
   \<and> map task exampleReport = [''TASK-1'', ''TASK-3'', ''TASK-5'', ''TASK-4'', ''TASK-2'']
   \<and> ''TASK-9'' \<in> set (Map_keys (openTimeIndex exampleProcessor))
   \<and> ''TASK-9'' \<notin> set (map task exampleReport)
   \<and> set (map task exampleReport) =
       set (Map_keys (taskActionIndex exampleProcessor))
       \<union> set (Map_keys (taskHistoryIndex exampleProcessor))
       \<union> set (Map_keys (autoAssignmentIndex exampleProcessor))"
proof -
  have t: "map task exampleReport = [''TASK-1'', ''TASK-3'', ''TASK-5'', ''TASK-4'', ''TASK-2'']"
    by (simp add: exampleReport_def)
  show ?thesis
    using report_one_record_per_task [of "exampleHost 0" exampleProcessor]
      exampleReport_eq example_datesValid example_loginsDefined
    by (simp add: t example_keys noLogin_report(3))
qed

subsection \<open>Productive time\<close>

text \<open>
  Claim C1. Every record \<open>r\<close> of the report is the draft record \<open>d\<close> that the first pass
  made for its task id, with the two derived fields filled in. Its productive time is
  computed from the two texts stored in \<open>d\<close> alone: null when the assigned-time text or
  the maker-complete text is empty, and otherwise \<^verbatim>\<open>calculateTimeDifferenceMinutes\<close> of
  the dates that \<^verbatim>\<open>new Date\<close> reads from the two texts; so it is null too when one of
  them cannot be read. No index is looked up for it.
\<close>

theorem productiveTime_from_draft_text:
  assumes "generateReport h tp = Inr recs" and "r \<in> set recs"
  shows "\<exists>d. draftRecord tp (task r) = Inr d
           \<and> assignedTime r = assignedTime d \<and> makerCompleteTime r = makerCompleteTime d
           \<and> productiveTime r =
               (if assignedTime d = [] \<or> makerCompleteTime d = [] then None
                else calculateTimeDifferenceMinutes (Some (newDate h (assignedTime d)))
                       (Some (newDate h (makerCompleteTime d))))
           \<and> (newDate h (assignedTime d) = InvalidDate \<or> newDate h (makerCompleteTime d) = InvalidDate
                \<longrightarrow> productiveTime r = None)"
proof -
  from assms obtain drafts d where dp: "draftPass tp (allTaskIds tp) = Inr drafts"
    and d: "d \<in> set drafts" and r: "r = deriveRecord h tp drafts d"
    by (auto simp: generateReport_Inr)
  have "map task drafts = allTaskIds tp" using dp by (rule draftPass_tasks)
  then have "distinct (map task drafts)" by (simp add: distinct_allTaskIds)
  then have f: "findRecordByTaskId drafts (task d) = Some d"
    using d by (simp add: findRecordByTaskId_def find_distinct_key)
  have p: "productiveTime r =
             (if assignedTime d = [] \<or> makerCompleteTime d = [] then None
              else calculateTimeDifferenceMinutes (Some (newDate h (assignedTime d)))
                     (Some (newDate h (makerCompleteTime d))))"
    by (simp add: r deriveRecord_def calculateProductiveTime_def f truthy_def Let_def)
  have "draftRecord tp (task r) = Inr d"
    using draftPass_records [OF dp d] by (simp add: r deriveRecord_def)
  moreover have "assignedTime r = assignedTime d" "makerCompleteTime r = makerCompleteTime d"
    by (simp_all add: r deriveRecord_def)
  moreover have "productiveTime r = None"
    if "newDate h (assignedTime d) = InvalidDate \<or> newDate h (makerCompleteTime d) = InvalidDate"
    using that by (auto simp: p calculateTimeDifferenceMinutes_def split: jsdate.splits)
  ultimately show ?thesis using p by blast
qed

text \<open>
  In the example the record of TASK-3 has the texts of 08:30 and 10:00:30 and a
  productive time of 90 minutes on a host that reads them. On a host whose
  \<^verbatim>\<open>new Date\<close> reads nothing the same indexes give the same texts and no productive
  time.
\<close>

theorem productiveTime_from_draft_text_witness:
  "generateReport (exampleHost 0) exampleProcessor = Inr exampleReport
   \<and> exampleReport ! 1 \<in> set exampleReport
   \<and> assignedTime (exampleReport ! 1) = ''2025-08-25T08:30:00.000Z''
   \<and> makerCompleteTime (exampleReport ! 1) = ''2025-08-25T10:00:30.000Z''
   \<and> productiveTime (exampleReport ! 1) = Some 90
   \<and> generateReport deafHost exampleProcessor
       = Inr (map (\<lambda>r. r\<lparr>productiveTime := None\<rparr>) exampleReport)"
proof -
  have m: "exampleReport ! 1 \<in> set exampleReport" by (simp add: exampleReport_def)
  have deaf: "generateReport deafHost exampleProcessor
                = Inr (map (\<lambda>r. r\<lparr>productiveTime := None\<rparr>) exampleReport)"
    by code_simp
  from productiveTime_from_draft_text [OF exampleReport_eq m]
  have "productiveTime (exampleReport ! 1) =
          (if assignedTime (exampleReport ! 1) = [] \<or> makerCompleteTime (exampleReport ! 1) = []
           then None
           else calculateTimeDifferenceMinutes
                  (Some (newDate (exampleHost 0) (assignedTime (exampleReport ! 1))))
                  (Some (newDate (exampleHost 0) (makerCompleteTime (exampleReport ! 1)))))"
    by auto
  then have "productiveTime (exampleReport ! 1) = Some 90"
    by (simp add: exampleReport_def)
  with m deaf exampleReport_eq show ?thesis by (simp add: exampleReport_def)
qed

section \<open>The user of a report record\<close>

lemma matchTail_Some:
  "matchTail s = Some e \<longleftrightarrow>
     s = '' ('' @ e @ '')'' \<and> list_all (\<lambda>c. \<not> lineTerminator c) e"
proof
  assume m: "matchTail s = Some e"
  then obtain c1 c2 rest where s: "s = c1 # c2 # rest"
    by (auto simp: matchTail_def split: list.splits)
  from m s have c: "c1 = CHR '' ''" "c2 = CHR ''(''" and r: "rest \<noteq> []"
    and l: "last rest = CHR '')''" and e: "e = butlast rest"
    and t: "list_all (\<lambda>c. \<not> lineTerminator c) (butlast rest)"
    by (simp_all add: matchTail_def split: if_splits)
  from r l have "rest = butlast rest @ '')''" by (metis append_butlast_last_id)
  with s c e t show "s = '' ('' @ e @ '')'' \<and> list_all (\<lambda>c. \<not> lineTerminator c) e"
    by simp
next
  assume "s = '' ('' @ e @ '')'' \<and> list_all (\<lambda>c. \<not> lineTerminator c) e"
  then show "matchTail s = Some e" by (simp add: matchTail_def)
qed

lemma userMatch_sound:
  "userMatch g s = Some (n, e) \<Longrightarrow>
     \<exists>p. n = g @ p \<and> s = p @ '' ('' @ e @ '')''
         \<and> list_all (\<lambda>c. \<not> lineTerminator c) (p @ e)"
proof (induction g s rule: userMatch.induct)
  case (1 g1)
  then show ?case by simp
next
  case (2 g1 c cs)
  show ?case
  proof (cases "matchTail (c # cs)")
    case (Some g2)
    with "2.prems" have "n = g1" "e = g2" by simp_all
    with Some show ?thesis by (simp add: matchTail_Some)
  next
    case None
    with "2.prems" have nl: "\<not> lineTerminator c" and u: "userMatch (g1 @ [c]) cs = Some (n, e)"
      by (simp_all split: if_splits)
    from "2.IH" [OF None nl u] obtain p where "n = (g1 @ [c]) @ p"
      and "cs = p @ '' ('' @ e @ '')''" and "list_all (\<lambda>c. \<not> lineTerminator c) (p @ e)"
      by blast
    with nl have "n = g1 @ (c # p) \<and> c # cs = (c # p) @ '' ('' @ e @ '')''
                  \<and> list_all (\<lambda>c. \<not> lineTerminator c) ((c # p) @ e)"
      by simp
    then show ?thesis by blast
  qed
qed

lemma userMatch_complete:
  "list_all (\<lambda>c. \<not> lineTerminator c) (p @ e) \<Longrightarrow> userMatch g (p @ '' ('' @ e @ '')'') \<noteq> None"
proof (induction p arbitrary: g)
  case Nil
  then have "matchTail ('' ('' @ e @ '')'') = Some e" by (simp add: matchTail_Some)
  then show ?case by simp
next
  case (Cons c p)
  then have nl: "\<not> lineTerminator c" and rest: "list_all (\<lambda>c. \<not> lineTerminator c) (p @ e)"
    by simp_all
  show ?case
  proof (cases "matchTail (c # p @ '' ('' @ e @ '')'')")
    case None
    with nl Cons.IH [OF rest, of "g @ [c]"] show ?thesis by simp
  next
    case (Some g2)
    then show ?thesis by simp
  qed
qed

text \<open>
  What \<open>splitUser\<close> does with a user string other than "Unknown": if the string is a name,
  a blank, and an email in parentheses (no line terminator in either), the two fields
  are such a name and email; if not, both fields are the whole string.
\<close>

lemma splitUser_form:
  assumes "splitUser user = (name, em)"
  shows "if user \<noteq> ''Unknown''
            \<and> (\<exists>n e. user = n @ '' ('' @ e @ '')'' \<and> list_all (\<lambda>c. \<not> lineTerminator c) (n @ e))
         then user = name @ '' ('' @ em @ '')''
         else name = user \<and> em = user"
proof (cases "user = ''Unknown''")
  case True
  with assms have "name = user \<and> em = user" by (auto simp: splitUser_def)
  with True show ?thesis by simp
next
  case False
  show ?thesis
  proof (cases "userMatch [] user")
    case None
    then have "\<not> (\<exists>n e. user = n @ '' ('' @ e @ '')''
                       \<and> list_all (\<lambda>c. \<not> lineTerminator c) (n @ e))"
      using userMatch_complete [of _ _ "[]"] by blast
    moreover from None False assms have "name = user \<and> em = user"
      by (auto simp: splitUser_def)
    ultimately show ?thesis by simp
  next
    case (Some ne)
    obtain n e where ne: "ne = (n, e)" by (cases ne)
    with Some False assms have eq: "name = n" "em = e" by (simp_all add: splitUser_def)
    from userMatch_sound [OF Some [unfolded ne]]
    have u: "user = n @ '' ('' @ e @ '')''" and l: "list_all (\<lambda>c. \<not> lineTerminator c) (n @ e)"
      by auto
    from u l False have "user \<noteq> ''Unknown''
        \<and> (\<exists>n e. user = n @ '' ('' @ e @ '')'' \<and> list_all (\<lambda>c. \<not> lineTerminator c) (n @ e))"
      by blast
    with u eq show ?thesis by simp
  qed
qed

text \<open>
  The user of a report record, for a processor built from the source collections, with
  \<open>t\<close> the task id of the record: the user string is the display form of the login
  email of the first TaskActions source entry of \<open>t\<close> when \<open>t\<close> has one; else the
  display form of the email of the AutoAssignment index record of \<open>t\<close> when there is
  such a record with a non-empty email; else "Unknown". The display form of an email is
  the display name the Users index has for it, a blank and the email in parentheses, or
  the email itself when the index has no (or an empty) display name for it. The user
  string is then split: a string other than "Unknown" of the form name, blank, email in
  parentheses gives such a name and email as the two fields; any other string is both
  fields.
\<close>

theorem report_user_resolution:
  assumes "generateReport h (processorOf acts hs us gs os ss) = Inr recs" and "r \<in> set recs"
  shows "\<exists>user.
           Some user =
             (case filter (\<lambda>a. taskId a = Some (task r)) acts of
                a # as \<Rightarrow> getUserDisplayName (processorOf acts hs us gs os ss) (loginEmail a)
              | [] \<Rightarrow>
                  (case Map_get (autoAssignmentIndex (processorOf acts hs us gs os ss)) (task r) of
                     None \<Rightarrow> Some ''Unknown''
                   | Some autoAssignment \<Rightarrow>
                       (case email autoAssignment of
                          None \<Rightarrow> Some ''Unknown''
                        | Some e \<Rightarrow>
                            if e = [] then Some ''Unknown''
                            else getUserDisplayName (processorOf acts hs us gs os ss) (Some e))))
           \<and> (\<forall>e. getUserDisplayName (processorOf acts hs us gs os ss) (Some e) =
                    (case Map_get (userIndex (processorOf acts hs us gs os ss)) (Some e) of
                       None \<Rightarrow> Some e
                     | Some dn \<Rightarrow> Some (if dn = [] then e else dn @ '' ('' @ e @ '')'')))
           \<and> (if user \<noteq> ''Unknown''
                  \<and> (\<exists>n e. user = n @ '' ('' @ e @ '')''
                           \<and> list_all (\<lambda>c. \<not> lineTerminator c) (n @ e))
               then user = userName r @ '' ('' @ userEmail r @ '')''
               else userName r = user \<and> userEmail r = user)"
proof -
  let ?P = "processorOf acts hs us gs os ss"
  from assms obtain drafts d where dp: "draftPass ?P (allTaskIds ?P) = Inr drafts"
    and d: "d \<in> set drafts" and r: "r = deriveRecord h ?P drafts d"
    by (auto simp: generateReport_Inr)
  have dr: "draftRecord ?P (task d) = Inr d" using dp d by (rule draftPass_records)
  have same: "task r = task d" "userName r = userName d" "userEmail r = userEmail d"
    by (simp_all add: r deriveRecord_def)
  have "task d \<in> set (allTaskIds ?P)"
    using draftPass_tasks [OF dp] d by (metis image_eqI set_map)
  then have tr: "truthy (task d)"
    using processor_keys_truthy [of acts hs us gs os ss] by (auto simp: set_allTaskIds list_all_iff)
  from draftRecord_fields(3) [OF dr] obtain user
    where user: "resolveUser ?P (task d) = Some user"
      and split: "splitUser user = (userName d, userEmail d)"
    by auto
  have res: "resolveUser ?P (task d) =
      (case filter (\<lambda>a. taskId a = Some (task d)) acts of
         a # as \<Rightarrow> getUserDisplayName ?P (loginEmail a)
       | [] \<Rightarrow>
           (case Map_get (autoAssignmentIndex ?P) (task d) of
              None \<Rightarrow> Some ''Unknown''
            | Some autoAssignment \<Rightarrow>
                (case email autoAssignment of
                   None \<Rightarrow> Some ''Unknown''
                 | Some e \<Rightarrow> if e = [] then Some ''Unknown''
                            else getUserDisplayName ?P (Some e))))"
    by (simp add: resolveUser_def action_index_of_sources [OF tr] truthy_def
        split: list.splits option.splits)
  have disp: "getUserDisplayName ?P (Some e) =
      (case Map_get (userIndex ?P) (Some e) of
         None \<Rightarrow> Some e
       | Some dn \<Rightarrow> Some (if dn = [] then e else dn @ '' ('' @ e @ '')''))" for e
    by (simp add: getUserDisplayName_def truthy_def split: option.splits)
  from splitUser_form [OF split] res [unfolded user] disp show ?thesis
    unfolding same by blast
qed

text \<open>
  In the example TASK-1 has a TaskActions entry whose login email has a display name,
  TASK-3 one whose login email has none, TASK-2 has no TaskActions entry and an
  auto-assignment with an email, and TASK-4 has neither.
\<close>

theorem report_user_resolution_witness:
  "generateReport (exampleHost 0)
     (processorOf exampleActions exampleHistories exampleUsers exampleAutos exampleOpens
        exampleScreenOpens) = Inr exampleReport
   \<and> exampleReport ! 0 \<in> set exampleReport
   \<and> task (exampleReport ! 0) = ''TASK-1''
   \<and> userName (exampleReport ! 0) = ''User B'' \<and> userEmail (exampleReport ! 0) = ''b@x.com''
   \<and> task (exampleReport ! 1) = ''TASK-3''
   \<and> userName (exampleReport ! 1) = ''c@x.com'' \<and> userEmail (exampleReport ! 1) = ''c@x.com''
   \<and> task (exampleReport ! 4) = ''TASK-2''
   \<and> userName (exampleReport ! 4) = ''Service'' \<and> userEmail (exampleReport ! 4) = ''svc@x.com''
   \<and> task (exampleReport ! 3) = ''TASK-4''
   \<and> userName (exampleReport ! 3) = ''Unknown'' \<and> userEmail (exampleReport ! 3) = ''Unknown''"
proof -
  note e = exampleReport_eq [unfolded exampleProcessor_def]
  have m: "exampleReport ! 0 \<in> set exampleReport" by (simp add: exampleReport_def)
  from report_user_resolution [OF e m]
  have "\<exists>user. if user \<noteq> ''Unknown''
                   \<and> (\<exists>n e. user = n @ '' ('' @ e @ '')''
                            \<and> list_all (\<lambda>c. \<not> lineTerminator c) (n @ e))
                then user = userName (exampleReport ! 0) @ '' ('' @ userEmail (exampleReport ! 0) @ '')''
                else userName (exampleReport ! 0) = user \<and> userEmail (exampleReport ! 0) = user"
    by blast
  with e m show ?thesis by (simp add: exampleReport_def)
qed

text \<open>
  The split gives back the display name and the email when the display name has no
  blank followed by an opening parenthesis (and neither text has a line terminator).
\<close>

lemma userMatch_exact:
  assumes "list_all (\<lambda>c. \<not> lineTerminator c) (p @ e)"
    and "\<And>q r. p \<noteq> q @ '' ('' @ r"
  shows "userMatch g (p @ '' ('' @ e @ '')'') = Some (g @ p, e)"
  using assms
proof (induction p arbitrary: g)
  case Nil
  then have "matchTail ('' ('' @ e @ '')'') = Some e" by (simp add: matchTail_Some)
  then show ?case by simp
next
  case (Cons c p)
  from Cons.prems(1) have nl: "\<not> lineTerminator c"
    and rest: "list_all (\<lambda>c. \<not> lineTerminator c) (p @ e)"
    by simp_all
  have no: "p \<noteq> q @ '' ('' @ r" for q r
    using Cons.prems(2) [of "c # q" r] by auto
  have "matchTail (c # p @ '' ('' @ e @ '')'') = None"
  proof (cases "matchTail (c # p @ '' ('' @ e @ '')'')")
    case None
    then show ?thesis .
  next
    case (Some g2)
    then have eq: "c # p @ '' ('' @ e @ '')'' = '' ('' @ g2 @ '')''"
      by (simp add: matchTail_Some)
    then have c: "c = CHR '' ''" and tl: "p @ '' ('' @ e @ '')'' = ''('' @ g2 @ '')''" by simp_all
    from tl obtain p' where "p = CHR ''('' # p'" by (cases p) auto
    with c have "c # p = [] @ '' ('' @ p'" by simp
    with Cons.prems(2) [of "[]" p'] show ?thesis by blast
  qed
  with nl Cons.IH [OF rest no, of "g @ [c]"] show ?case by simp
qed

lemma splitUser_display_form:
  assumes "list_all (\<lambda>c. \<not> lineTerminator c) (dn @ e)"
    and "\<And>q r. dn \<noteq> q @ '' ('' @ r"
  shows "splitUser (dn @ '' ('' @ e @ '')'') = (dn, e)"
proof -
  have "dn @ '' ('' @ e @ '')'' \<noteq> ''Unknown''"
  proof
    assume "dn @ '' ('' @ e @ '')'' = ''Unknown''"
    then have "last (dn @ '' ('' @ e @ '')'') = last ''Unknown''" by (rule arg_cong)
    then show False by simp
  qed
  with userMatch_exact [OF assms, of "[]"] show ?thesis by (simp add: splitUser_def)
qed

text \<open>
  Claim C6 does not hold of the code where the display name of the user has a blank
  and an opening parenthesis in it. The resolution of the user is as the claim says:
  the login email of the first TaskActions entry, here jane@x.com, whose display form
  is "Doe, Jane (Consultant) (jane@x.com)". The split takes the shortest text before a
  blank and an opening parenthesis as the name and all the rest up to the last closing
  parenthesis as the email: the record has the name "Doe, Jane" and the email
  "Consultant) (jane@x.com", where the claim has the name and the email of the display
  form as the two components.
\<close>

theorem userEmail_cut_at_first_parenthesis:
  "resolveUser parenProcessor ''TASK-1'' = Some ''Doe, Jane (Consultant) (jane@x.com)''
   \<and> generateReport (exampleHost 0) parenProcessor =
       Inr [\<lparr>task = ''TASK-1'', userName = ''Doe, Jane'',
             userEmail = ''Consultant) (jane@x.com'', mode = Manual, createdTime = [],
             assignedTime = [], makerCompleteTime = [], openTime = [],
             productiveTime = None, waitingTime = None\<rparr>]"
  by code_simp

section \<open>The auto task open analysis\<close>

text \<open>
  On a list of valid dates the reduction of \<^verbatim>\<open>getFirstScreenOpenTime\<close> gives the least
  one, whatever the order of the list.
\<close>

lemma earliest_fold_valid:
  "foldl (\<lambda>earliest current. if js_lt current earliest then current else earliest)
         (Some (Date x)) (map (\<lambda>t. Some (Date t)) xs)
     = Some (Date (fold min xs x))"
proof (induction xs arbitrary: x)
  case Nil
  then show ?case by simp
next
  case (Cons y xs)
  have "(if js_lt (Some (Date y)) (Some (Date x)) then Some (Date y) else Some (Date x))
          = Some (Date (min y x))"
    by (simp add: js_lt_def toNumber_def min_def)
  with Cons [of "min y x"] show ?case by simp
qed

lemma getFirstScreenOpenTime_valid:
  assumes "Map_get (screenOpenIndex tp) e = Some (map (\<lambda>t. Some (Date t)) (x # xs))"
  shows "getFirstScreenOpenTime tp (Some e) = Some (Date (Min (set (x # xs))))"
  using assms Min.set_eq_fold [of x xs]
  by (simp add: getFirstScreenOpenTime_def earliest_fold_valid)

lemma timeToOpen_valid:
  assumes "\<bar>f - a\<bar> \<le> 2 ^ 53"
  shows "timeToOpen (Some (Date a)) (Some (Date f))
           = (if a < f then Some ((f - a) div 60000) else None)"
  using moment_diff_minutes_exact [OF assms]
  by (simp add: timeToOpen_def js_lt_def toNumber_def calculateTimeDifferenceMinutes_def)

text \<open>
  Claim C9 does not hold of the code. The screen-open list of a user may hold \<^verbatim>\<open>null\<close>:
  \<^verbatim>\<open>buildScreenOpenIndex\<close> keeps the timestamp of every row that has an email, and
  \<^verbatim>\<open>parseDate\<close> gives \<^verbatim>\<open>null\<close> for a text it cannot read. In the comparison of the
  reduction \<^verbatim>\<open>null\<close> counts as 0, so it is less than every date after 1970 and becomes
  the result. Here the user has a screen-open at 08:30, after the assignment at 08:00,
  and a second row without a readable timestamp: the first screen-open time is
  \<^verbatim>\<open>null\<close> and no time to open is reported, in either order of the two rows. Without
  the second row the time to open is 30 minutes.
\<close>

theorem firstScreenOpen_lost_to_null_timestamp:
  "getFirstScreenOpenTime nullStampProcessor (Some ''svc@x.com'') = None
   \<and> generateAutoTaskOpenAnalysis nullStampProcessor =
       Inr [\<lparr>an_taskId = ''TASK-2'', an_userEmail = Some ''svc@x.com'',
             an_userName = Some ''Service (svc@x.com)'',
             an_assignedTime = ''2025-08-25T08:00:00.000Z'', firstScreenOpenTime = [],
             timeToOpenMinutes = None, screenOpenCount = 2, assignmentDate = ''2025-08-25''\<rparr>]
   \<and> getFirstScreenOpenTime
         (processorOf [] [] exampleUsers
            [mkAuto ''TASK-2'' (Some ''svc@x.com'') (Some (Date 1756108800000))] []
            (rev nullStampScreenOpens)) (Some ''svc@x.com'') = None
   \<and> generateAutoTaskOpenAnalysis
         (processorOf [] [] exampleUsers
            [mkAuto ''TASK-2'' (Some ''svc@x.com'') (Some (Date 1756108800000))] []
            [hd nullStampScreenOpens]) =
       Inr [\<lparr>an_taskId = ''TASK-2'', an_userEmail = Some ''svc@x.com'',
             an_userName = Some ''Service (svc@x.com)'',
             an_assignedTime = ''2025-08-25T08:00:00.000Z'',
             firstScreenOpenTime = ''2025-08-25T08:30:00.000Z'',
             timeToOpenMinutes = Some 30, screenOpenCount = 1, assignmentDate = ''2025-08-25''\<rparr>]"
  by code_simp

section \<open>The AutoAssignment index\<close>

lemma auto_index_of_sources:
  assumes "truthy t"
  shows "Map_get (autoAssignmentIndex (processorOf acts hs us gs os ss)) t =
           (case filter (\<lambda>a. aa_taskId a = t) gs of
              [] \<Rightarrow> None
            | x # xs \<Rightarrow> Some (last (x # xs)))"
  using assms by (simp add: processorOf_indexes auto_fold_get Map_get_Nil split: list.splits)

lemma auto_index_distinct:
  "distinct (Map_keys (autoAssignmentIndex (processorOf acts hs us gs os ss)))"
  by (simp add: processorOf_indexes auto_fold_distinct Map_keys_Nil)

text \<open>\<open>findTaskId\<close> finds a task id exactly in a text that has \<^verbatim>\<open>TASK-\<close> and a digit after it.\<close>

lemma findTaskId_Some:
  "findTaskId s = Some t \<Longrightarrow>
     \<exists>pre ds post. s = pre @ ''TASK-'' @ ds @ post \<and> ds \<noteq> [] \<and> list_all isDigit ds
        \<and> t = ''TASK-'' @ ds"
proof (induction s)
  case Nil
  then show ?case by simp
next
  case (Cons c cs)
  show ?case
  proof (cases "take 5 (c # cs) = ''TASK-'' \<and> takeWhile isDigit (drop 5 (c # cs)) \<noteq> []")
    case True
    define rest where "rest = drop 5 (c # cs)"
    define ds where "ds = takeWhile isDigit rest"
    from True Cons.prems have t: "t = ''TASK-'' @ ds" and ne: "ds \<noteq> []"
      by (simp_all add: ds_def rest_def)
    from True have "take 5 (c # cs) = ''TASK-''" by blast
    then have a: "c # cs = ''TASK-'' @ rest"
      unfolding rest_def by (metis append_take_drop_id)
    have b: "rest = ds @ dropWhile isDigit rest"
      unfolding ds_def by (simp only: takeWhile_dropWhile_id)
    have "c # cs = [] @ ''TASK-'' @ ds @ dropWhile isDigit rest"
      using a b by (metis append_Nil)
    moreover have "list_all isDigit ds"
      unfolding ds_def list_all_iff by (meson set_takeWhileD)
    ultimately show ?thesis using ne t by blast
  next
    case False
    with Cons.prems have "findTaskId cs = Some t" by (simp split: if_splits)
    from Cons.IH [OF this] obtain pre ds post where "cs = pre @ ''TASK-'' @ ds @ post"
      and "ds \<noteq> []" and "list_all isDigit ds" and "t = ''TASK-'' @ ds"
      by blast
    then have "c # cs = (c # pre) @ ''TASK-'' @ ds @ post \<and> ds \<noteq> [] \<and> list_all isDigit ds
               \<and> t = ''TASK-'' @ ds"
      by simp
    then show ?thesis by blast
  qed
qed

lemma findTaskId_None:
  "findTaskId (pre @ ''TASK-'' @ d # post) = None \<Longrightarrow> \<not> isDigit d"
proof (induction pre)
  case Nil
  then show ?case by (auto split: if_splits)
next
  case (Cons c pre)
  then show ?case by (simp split: if_splits)
qed

lemma findTaskId_truthy: "findTaskId s = Some t \<Longrightarrow> truthy t"
  by (drule findTaskId_Some) (auto simp: truthy_def)

lemma extractAutoAssignment_Some:
  assumes "extractAutoAssignment h item = Some a"
  shows "truthy (aa_taskId a)" and "\<exists>t. timestamp a = Some (Date t)"
    and "\<exists>payload. textPayload item = Some payload \<and> findTaskId payload = Some (aa_taskId a)
           \<and> itemTimestamp h item payload = timestamp a"
  using assms
  by (auto simp: extractAutoAssignment_def Let_def findTaskId_truthy
      split: option.splits if_splits jsdate.splits)

lemma extractAutoAssignment_None:
  assumes "case textPayload item of
             None \<Rightarrow> True
           | Some payload \<Rightarrow> findTaskId payload = None \<or> itemTimestamp h item payload = None
                              \<or> itemTimestamp h item payload = Some InvalidDate"
  shows "extractAutoAssignment h item = None"
  using assms
  by (auto simp: extractAutoAssignment_def Let_def split: option.splits)

lemma parseGCPJson_dropped:
  "extractAutoAssignment h item = None \<Longrightarrow>
     parseGCPJson h (before @ item # after) = parseGCPJson h (before @ after)"
  by (simp add: parseGCPJson_def List.map_filter_def)

lemma parseGCPJson_truthy: "a \<in> set (parseGCPJson h items) \<Longrightarrow> truthy (aa_taskId a)"
  by (auto simp: parseGCPJson_def List.map_filter_def dest: extractAutoAssignment_Some(1))

text \<open>
  Claim C10. In the AutoAssignment index built from the records that \<^verbatim>\<open>parseGCPJson\<close>
  extracts from the log entries, no task id is a key twice, and the record of a task id
  is the last of the extracted records that carry it (there is none when no extracted
  record carries it). A log entry without text, without a task id in its text, or
  without a valid timestamp gives no record, and the extracted records, hence the
  index, are what they would be without the entry.
\<close>

theorem autoAssignment_index_last_write_wins:
  "distinct (Map_keys (autoAssignmentIndex (processorOf acts hs us (parseGCPJson h items) os ss)))
   \<and> Map_get (autoAssignmentIndex (processorOf acts hs us (parseGCPJson h items) os ss)) t =
       (case filter (\<lambda>a. aa_taskId a = t) (parseGCPJson h items) of
          [] \<Rightarrow> None
        | x # xs \<Rightarrow> Some (last (x # xs)))
   \<and> ((case textPayload item of
          None \<Rightarrow> True
        | Some payload \<Rightarrow> findTaskId payload = None \<or> itemTimestamp h item payload = None
                           \<or> itemTimestamp h item payload = Some InvalidDate)
       \<longrightarrow> extractAutoAssignment h item = None
           \<and> parseGCPJson h (before @ item # after) = parseGCPJson h (before @ after))"
proof -
  let ?idx = "autoAssignmentIndex (processorOf acts hs us (parseGCPJson h items) os ss)"
  have get: "Map_get ?idx t =
      (case filter (\<lambda>a. aa_taskId a = t) (parseGCPJson h items) of
         [] \<Rightarrow> None | x # xs \<Rightarrow> Some (last (x # xs)))"
  proof (cases "truthy t")
    case True
    then show ?thesis by (rule auto_index_of_sources)
  next
    case False
    then have "filter (\<lambda>a. aa_taskId a = t) (parseGCPJson h items) = []"
      by (auto simp: filter_empty_conv dest: parseGCPJson_truthy)
    moreover have "t \<notin> set (Map_keys ?idx)"
      using processor_keys_truthy(3) [of acts hs us "parseGCPJson h items" os ss] False
      by (auto simp: list_all_iff)
    then have "Map_get ?idx t = None" by (simp add: Map_get_def Map_keys_def map_of_eq_None_iff)
    ultimately show ?thesis by simp
  qed
  have imp: "(case textPayload item of
                None \<Rightarrow> True
              | Some payload \<Rightarrow> findTaskId payload = None \<or> itemTimestamp h item payload = None
                                 \<or> itemTimestamp h item payload = Some InvalidDate)
             \<longrightarrow> extractAutoAssignment h item = None
                 \<and> parseGCPJson h (before @ item # after) = parseGCPJson h (before @ after)"
  proof
    assume "case textPayload item of
              None \<Rightarrow> True
            | Some payload \<Rightarrow> findTaskId payload = None \<or> itemTimestamp h item payload = None
                               \<or> itemTimestamp h item payload = Some InvalidDate"
    then have n: "extractAutoAssignment h item = None" by (rule extractAutoAssignment_None)
    then have "parseGCPJson h (before @ item # after) = parseGCPJson h (before @ after)"
      by (rule parseGCPJson_dropped)
    with n show "extractAutoAssignment h item = None
                 \<and> parseGCPJson h (before @ item # after) = parseGCPJson h (before @ after)"
      by simp
  qed
  show ?thesis
    by (intro conjI) (rule auto_index_distinct get imp)+
qed

text \<open>
  In the example the second entry has no task id, the third an unreadable timestamp,
  and the first and the fourth are both for TASK-2: the index has the fourth.
\<close>

theorem autoAssignment_index_last_write_wins_witness:
  "parseGCPJson (exampleHost 0) exampleItems =
     [mkAuto ''TASK-2'' (Some ''svc@x.com'') (Some (Date 1756108800000)),
      mkAuto ''TASK-2'' (Some ''b@x.com'') (Some (Date 1756109400000))]
   \<and> findTaskId ''Assigned nothing email=svc@x.com, ok'' = None
   \<and> itemTimestamp (exampleHost 0) (exampleItems ! 2) ''Assigned TASK-7 email=b@x.com, ok''
       = Some InvalidDate
   \<and> parseGCPJson (exampleHost 0) (take 1 exampleItems @ exampleItems ! 1 # drop 2 exampleItems)
       = parseGCPJson (exampleHost 0) (take 1 exampleItems @ drop 2 exampleItems)
   \<and> autoAssignmentIndex (processorOf [] [] [] (parseGCPJson (exampleHost 0) exampleItems) [] [])
       = [(''TASK-2'', mkAuto ''TASK-2'' (Some ''b@x.com'') (Some (Date 1756109400000)))]
   \<and> Map_get (autoAssignmentIndex
                 (processorOf [] [] [] (parseGCPJson (exampleHost 0) exampleItems) [] []))
        ''TASK-2''
       = Some (mkAuto ''TASK-2'' (Some ''b@x.com'') (Some (Date 1756109400000)))"
proof -
  have p: "parseGCPJson (exampleHost 0) exampleItems =
     [mkAuto ''TASK-2'' (Some ''svc@x.com'') (Some (Date 1756108800000)),
      mkAuto ''TASK-2'' (Some ''b@x.com'') (Some (Date 1756109400000))]"
    by code_simp
  have f: "findTaskId ''Assigned nothing email=svc@x.com, ok'' = None"
    by code_simp
  have i: "itemTimestamp (exampleHost 0) (exampleItems ! 2) ''Assigned TASK-7 email=b@x.com, ok''
             = Some InvalidDate"
    by code_simp
  have x: "autoAssignmentIndex (processorOf [] [] [] (parseGCPJson (exampleHost 0) exampleItems) [] [])
             = [(''TASK-2'', mkAuto ''TASK-2'' (Some ''b@x.com'') (Some (Date 1756109400000)))]"
    by code_simp
  have t1: "textPayload (exampleItems ! 1) = Some ''Assigned nothing email=svc@x.com, ok''"
    by code_simp
  have ante: "case textPayload (exampleItems ! 1) of
                None \<Rightarrow> True
              | Some payload \<Rightarrow>
                  findTaskId payload = None
                  \<or> itemTimestamp (exampleHost 0) (exampleItems ! 1) payload = None
                  \<or> itemTimestamp (exampleHost 0) (exampleItems ! 1) payload = Some InvalidDate"
    unfolding t1 by (simp add: f)
  note T = autoAssignment_index_last_write_wins [of "[]" "[]" "[]" "exampleHost 0" exampleItems
      "[]" "[]" "''TASK-2''" "exampleItems ! 1" "take 1 exampleItems" "drop 2 exampleItems"]
  from T ante
  have d: "parseGCPJson (exampleHost 0) (take 1 exampleItems @ exampleItems ! 1 # drop 2 exampleItems)
             = parseGCPJson (exampleHost 0) (take 1 exampleItems @ drop 2 exampleItems)"
    by blast
  have g: "Map_get (autoAssignmentIndex
                      (processorOf [] [] [] (parseGCPJson (exampleHost 0) exampleItems) [] []))
             ''TASK-2''
             = Some (mkAuto ''TASK-2'' (Some ''b@x.com'') (Some (Date 1756109400000)))"
    by code_simp
  show ?thesis
    by (intro conjI) (rule p f i d x g)+
qed

section \<open>The date parser\<close>

text \<open>
  A format without an offset token is read as local time: on another host the same
  text is the instant shifted by the difference of the two local offsets.
\<close>

lemma matchToken_offset:
  "tok \<noteq> TokZ \<Longrightarrow> matchToken tok p s = Some (p', s') \<Longrightarrow> p_offset p' = p_offset p"
  by (cases tok) (auto split: if_splits)

lemma parseTokens_offset:
  "TokZ \<notin> set fmt \<Longrightarrow> parseTokens fmt p s = Some p' \<Longrightarrow> p_offset p' = p_offset p"
proof (induction fmt arbitrary: p s)
  case Nil
  then show ?case by (simp split: if_splits)
next
  case (Cons tok fmt)
  from Cons.prems(2) obtain q s' where m: "matchToken tok p s = Some (q, s')"
    and r: "parseTokens fmt q s' = Some p'"
    by (auto split: option.splits)
  from Cons.prems(1) have "tok \<noteq> TokZ" "TokZ \<notin> set fmt" by auto
  with matchToken_offset [OF _ m] Cons.IH [OF _ r] show ?case by simp
qed

lemma momentStrict_local_time:
  assumes "TokZ \<notin> set fmt" and "momentStrict h fmt s = Date t"
  shows "momentStrict (h\<lparr>localOffset := off\<rparr>) fmt s = Date (t + (localOffset h - off) * 60000)"
proof -
  from assms(2) obtain p where p: "parseTokens fmt noParts s = Some p"
    by (auto simp: momentStrict_def split: option.splits)
  from parseTokens_offset [OF assms(1) p] have "p_offset p = None" by (simp add: noParts_def)
  with assms(2) p show ?thesis
    by (auto simp: momentStrict_def Let_def algebra_simps split: if_splits)
qed

text \<open>
  Claim C2 does not hold of the code. \<^verbatim>\<open>toISOString\<close> writes a date in UTC with a final
  Z. Of the four formats of \<^verbatim>\<open>parseDate\<close> the third is the one that reads this text, and
  its Z is a literal letter, so moment reads the fields as local time. On a host one
  hour east of UTC the instant 2025-08-25T13:20:00.000Z comes back as
  2025-08-25T12:20:00.000Z; only on a host in the UTC zone does it come back as itself.
  The first format, too, gives a different instant for the same text on the two hosts.
\<close>

theorem parseDate_reads_utc_text_as_local_time:
  "toISOString (Date 1756128000000) = Inr ''2025-08-25T13:20:00.000Z''
   \<and> parseDate (exampleHost 60) (Some ''2025-08-25T13:20:00.000Z'') = Some (Date 1756124400000)
   \<and> toISOString (Date 1756124400000) = Inr ''2025-08-25T12:20:00.000Z''
   \<and> parseDate (exampleHost 0) (Some ''2025-08-25T13:20:00.000Z'') = Some (Date 1756128000000)
   \<and> parseDate (exampleHost 0) (Some ''8/25/2025 8:50'') = Some (Date 1756111800000)
   \<and> parseDate (exampleHost 60) (Some ''8/25/2025 8:50'') = Some (Date 1756108200000)"
  by code_simp

end
